theory Spec2Isabelle
  imports Complex_Main "HOL-Library.Sublist" "HOL-Library.Char_ord"
    "HOL-Library.List_Lexorder" "HOL-Library.Product_Lexorder"
begin

section \<open>Characters and strings\<close>

text \<open>
  A Python \<open>str\<close> is modelled as a HOL \<open>string\<close>; a character is read as the code point
  U+0000..U+00FF that \<open>of_char\<close> gives.  The character classes below are the ones
  CPython's \<open>re\<close> module and \<open>str\<close> methods use on that range: \<open>\s\<close> and
  \<open>str.strip\<close>/\<open>str.split\<close> share one whitespace table, \<open>\w\<close> is
  \<open>str.isalnum\<close> plus the underscore, and \<open>str.lower\<close> shifts the upper-case letters
  of both the ASCII and the Latin-1 block by 32.  Texts with code points beyond U+00FF are
  outside the model.
\<close>

definition is_space :: "char \<Rightarrow> bool" where
  "is_space c \<longleftrightarrow>
     (let n = (of_char c :: nat) in (9 \<le> n \<and> n \<le> 13) \<or> (28 \<le> n \<and> n \<le> 32) \<or> n = 133 \<or> n = 160)"

definition is_upper_ascii :: "char \<Rightarrow> bool" where
  "is_upper_ascii c \<longleftrightarrow> (let n = (of_char c :: nat) in 65 \<le> n \<and> n \<le> 90)"

definition is_lower_ascii :: "char \<Rightarrow> bool" where
  "is_lower_ascii c \<longleftrightarrow> (let n = (of_char c :: nat) in 97 \<le> n \<and> n \<le> 122)"

definition is_letter_ascii :: "char \<Rightarrow> bool" where
  "is_letter_ascii c \<longleftrightarrow> is_upper_ascii c \<or> is_lower_ascii c"

definition is_alnum :: "char \<Rightarrow> bool" where
  "is_alnum c \<longleftrightarrow>
     (let n = (of_char c :: nat) in
        (48 \<le> n \<and> n \<le> 57) \<or> (65 \<le> n \<and> n \<le> 90) \<or> (97 \<le> n \<and> n \<le> 122) \<or>
        n = 170 \<or> n = 178 \<or> n = 179 \<or> n = 181 \<or> n = 185 \<or> n = 186 \<or>
        (188 \<le> n \<and> n \<le> 190) \<or> (192 \<le> n \<and> n \<le> 214) \<or>
        (216 \<le> n \<and> n \<le> 246) \<or> 248 \<le> n)"

definition is_word :: "char \<Rightarrow> bool" where
  "is_word c \<longleftrightarrow> is_alnum c \<or> c = CHR ''_''"

definition lower_char :: "char \<Rightarrow> char" where
  "lower_char c =
     (let n = (of_char c :: nat) in
        if (65 \<le> n \<and> n \<le> 90) \<or> (192 \<le> n \<and> n \<le> 214) \<or> (216 \<le> n \<and> n \<le> 222)
        then char_of (n + 32) else c)"

definition str_lower :: "string \<Rightarrow> string" where
  "str_lower s = map lower_char s"

text \<open>\<open>str.isalnum()\<close>: every character alphanumeric, and at least one character.\<close>

definition isalnum :: "string \<Rightarrow> bool" where
  "isalnum s \<longleftrightarrow> s \<noteq> [] \<and> list_all is_alnum s"

text \<open>\<open>str.strip()\<close> removes leading and trailing whitespace.\<close>

definition str_strip :: "string \<Rightarrow> string" where
  "str_strip s = rev (dropWhile is_space (rev (dropWhile is_space s)))"

text \<open>
  \<open>str.split()\<close> without arguments: the maximal runs of non-whitespace characters.
  \<open>cur\<close> holds the run being read, reversed.
\<close>

fun split_from :: "string \<Rightarrow> string \<Rightarrow> string list" where
  "split_from cur [] = (if cur = [] then [] else [rev cur])"
| "split_from cur (c # cs) =
     (if is_space c then (if cur = [] then split_from [] cs else rev cur # split_from [] cs)
      else split_from (c # cur) cs)"

definition str_split :: "string \<Rightarrow> string list" where
  "str_split s = split_from [] s"

text \<open>\<open>" ".join(parts)\<close>.\<close>

fun str_join :: "string list \<Rightarrow> string" where
  "str_join [] = []"
| "str_join [p] = p"
| "str_join (p # q # ps) = p @ CHR '' '' # str_join (q # ps)"

section \<open>Text normalizer\<close>

text \<open>
  \<open>re.sub(r'\s+', ' ', text)\<close>: every maximal whitespace run becomes one space.  The flag
  says that the previous character belonged to a run already replaced.
\<close>

fun collapse_from :: "bool \<Rightarrow> string \<Rightarrow> string" where
  "collapse_from in_run [] = []"
| "collapse_from in_run (c # cs) =
     (if is_space c then (if in_run then collapse_from True cs else CHR '' '' # collapse_from True cs)
      else c # collapse_from False cs)"

definition collapse_whitespace :: "string \<Rightarrow> string" where
  "collapse_whitespace s = collapse_from False s"

text \<open>\<open>re.sub(r'[^\w\s.,!?;:\-()]', '', text)\<close> deletes every character outside the class.\<close>

definition keep_char :: "char \<Rightarrow> bool" where
  "keep_char c \<longleftrightarrow> is_word c \<or> is_space c \<or> c \<in> set ''.,!?;:-()''"

definition remove_special :: "string \<Rightarrow> string" where
  "remove_special s = filter keep_char s"

definition clean_text :: "string \<Rightarrow> string" where
  "clean_text text = str_strip (remove_special (collapse_whitespace text))"

section \<open>Tokenizer\<close>

text \<open>
  \<open>re.split(r'(?<=[.!?])\s+(?=[A-Z])', text)\<close>: the text is cut at every maximal whitespace
  run that follows one of \<open>.\<close>, \<open>!\<close>, \<open>?\<close> and precedes an ASCII capital; the run
  itself is dropped.  (A shorter match of \<open>\s+\<close> is followed by whitespace, and a match
  starting inside a run is preceded by whitespace, so only whole runs match.)
  \<open>cur\<close> holds the piece being read, reversed.
\<close>

function split_sentences :: "string \<Rightarrow> string \<Rightarrow> string list" where
  "split_sentences cur [] = [rev cur]"
| "split_sentences cur (c # cs) =
     (if c \<in> set ''.!?'' \<and> takeWhile is_space cs \<noteq> [] \<and> dropWhile is_space cs \<noteq> [] \<and>
         is_upper_ascii (hd (dropWhile is_space cs))
      then rev (c # cur) # split_sentences [] (dropWhile is_space cs)
      else split_sentences (c # cur) cs)"
  by pat_completeness auto
termination
  by (relation "measure (\<lambda>(cur, s). length s)")
     (auto simp: less_Suc_eq_le length_dropWhile_le)

definition simple_sent_tokenize :: "string \<Rightarrow> string list" where
  "simple_sent_tokenize text =
     map str_strip
       (filter (\<lambda>s. str_strip s \<noteq> [] \<and> length (str_strip s) > 10) (split_sentences [] text))"

text \<open>
  \<open>re.findall(r'\b[a-zA-Z]{2,}\b', s)\<close>, scanning from the left.  \<open>prev_word\<close> says that
  the character before the current position is a word character.  A match starts at a
  word boundary, takes the whole run of ASCII letters (greedy) and must end at a word
  boundary; giving back letters cannot help, since the position between two letters is no
  boundary.  After a match the scan resumes behind it, otherwise one character further.
\<close>

function find_words :: "bool \<Rightarrow> string \<Rightarrow> string list" where
  "find_words prev_word [] = []"
| "find_words prev_word (c # cs) =
     (if \<not> prev_word \<and> 2 \<le> length (takeWhile is_letter_ascii (c # cs)) \<and>
         (dropWhile is_letter_ascii (c # cs) = [] \<or>
          \<not> is_word (hd (dropWhile is_letter_ascii (c # cs))))
      then takeWhile is_letter_ascii (c # cs) #
           find_words True (dropWhile is_letter_ascii (c # cs))
      else find_words (is_word c) cs)"
  by pat_completeness auto
termination
  by (relation "measure (\<lambda>(p, s). length s)")
     (auto simp: less_Suc_eq_le length_dropWhile_le split: if_splits)

declare find_words.simps [simp del]

definition simple_word_tokenize :: "string \<Rightarrow> string list" where
  "simple_word_tokenize text = find_words False (str_lower text)"

definition BASIC_STOPWORDS :: "string list" where
  "BASIC_STOPWORDS =
    [''i'', ''me'', ''my'', ''myself'', ''we'', ''our'', ''ours'', ''ourselves'', ''you'', ''your'', ''yours'',
     ''yourself'', ''yourselves'', ''he'', ''him'', ''his'', ''himself'', ''she'', ''her'', ''hers'',
     ''herself'', ''it'', ''its'', ''itself'', ''they'', ''them'', ''their'', ''theirs'', ''themselves'',
     ''what'', ''which'', ''who'', ''whom'', ''this'', ''that'', ''these'', ''those'', ''am'', ''is'', ''are'',
     ''was'', ''were'', ''be'', ''been'', ''being'', ''have'', ''has'', ''had'', ''having'', ''do'', ''does'',
     ''did'', ''doing'', ''a'', ''an'', ''the'', ''and'', ''but'', ''if'', ''or'', ''because'', ''as'', ''until'',
     ''while'', ''of'', ''at'', ''by'', ''for'', ''with'', ''through'', ''during'', ''before'', ''after'',
     ''above'', ''below'', ''up'', ''down'', ''in'', ''out'', ''on'', ''off'', ''over'', ''under'', ''again'',
     ''further'', ''then'', ''once'', ''here'', ''there'', ''when'', ''where'', ''why'', ''how'', ''all'',
     ''any'', ''both'', ''each'', ''few'', ''more'', ''most'', ''other'', ''some'', ''such'', ''no'', ''nor'',
     ''not'', ''only'', ''own'', ''same'', ''so'', ''than'', ''too'', ''very'', ''can'', ''will'', ''just'',
     ''should'', ''now'', ''could'', ''would'', ''may'', ''might'', ''must'', ''shall'']"

subsection \<open>The linguistic backend\<close>

text \<open>
  NLTK is not part of the program: its three entry points are parameters.  A call either
  returns a value or raises; every call site catches whatever is raised with a bare
  \<open>except:\<close>, so a raising call is \<open>None\<close>.  \<open>NLTK_AVAILABLE\<close> is the module-level
  flag set once at import time.
\<close>

record backend =
  NLTK_AVAILABLE :: bool
  sent_tokenize :: "string \<Rightarrow> string list option"
  word_tokenize :: "string \<Rightarrow> string list option"
  stopwords_words :: "string list option"

definition tokenize_sentences :: "backend \<Rightarrow> string \<Rightarrow> string list" where
  "tokenize_sentences b text =
     (if NLTK_AVAILABLE b then
        (case sent_tokenize b text of Some ss \<Rightarrow> ss | None \<Rightarrow> simple_sent_tokenize text)
      else simple_sent_tokenize text)"

definition tokenize_words :: "backend \<Rightarrow> string \<Rightarrow> string list" where
  "tokenize_words b text =
     (if NLTK_AVAILABLE b then
        (case word_tokenize b (str_lower text) of Some ws \<Rightarrow> ws | None \<Rightarrow> simple_word_tokenize text)
      else simple_word_tokenize text)"

definition get_stopwords :: "backend \<Rightarrow> string set" where
  "get_stopwords b =
     (if NLTK_AVAILABLE b then
        (case stopwords_words b of Some ws \<Rightarrow> set ws | None \<Rightarrow> set BASIC_STOPWORDS)
      else set BASIC_STOPWORDS)"

section \<open>Floating-point arithmetic\<close>

text \<open>
  A Python \<open>float\<close> is an IEEE 754 double; it is modelled by the rational number it stands
  for.  Each operation computes the exact result and rounds it to the nearest number with
  a 53-bit mantissa, ties to the even mantissa.  The exponent range is left unbounded:
  the quantities of the program (sentence counts, word counts and their ratios) stay far
  inside the range of a double.  An \<open>int\<close> is compared with a \<open>float\<close> exactly.
\<close>

fun bits :: "nat \<Rightarrow> nat" where
  "bits n = (if n = 0 then 0 else Suc (bits (n div 2)))"

declare bits.simps [simp del]

text \<open>The exponent \<open>e\<close> with \<open>2 ^ e \<le> x < 2 ^ (e + 1)\<close>, for positive \<open>x\<close>.\<close>

definition ilog2 :: "rat \<Rightarrow> int" where
  "ilog2 x =
     (if 1 \<le> x then int (bits (nat \<lfloor>x\<rfloor>)) - 1 else - int (bits (nat (\<lceil>1 / x\<rceil> - 1))))"

definition round_half_even :: "rat \<Rightarrow> int" where
  "round_half_even m =
     (let f = \<lfloor>m\<rfloor>; d = m - of_int f in
      if d < 1 / 2 then f else if 1 / 2 < d then f + 1 else if even f then f else f + 1)"

definition round_double :: "rat \<Rightarrow> rat" where
  "round_double x =
     (if x = 0 then 0
      else let a = \<bar>x\<bar>; q = power_int 2 (ilog2 a - 52)
           in sgn x * (of_int (round_half_even (a / q)) * q))"

text \<open>A decimal literal, \<open>float(n)\<close>, \<open>x * y\<close> on floats and \<open>a / b\<close> on ints.\<close>

definition float_literal :: "rat \<Rightarrow> rat" where
  "float_literal q = round_double q"

definition float_of_int :: "int \<Rightarrow> rat" where
  "float_of_int n = round_double (of_int n)"

definition float_mul :: "rat \<Rightarrow> rat \<Rightarrow> rat" where
  "float_mul x y = round_double (x * y)"

definition int_true_div :: "int \<Rightarrow> int \<Rightarrow> rat" where
  "int_true_div a b = round_double (of_int a / of_int b)"

section \<open>Dictionaries and selection\<close>

text \<open>
  A \<open>dict\<close> whose iteration order matters is an association list in insertion order:
  assigning to a key already present keeps its position.
\<close>

fun dict_set :: "('k \<times> 'v) list \<Rightarrow> 'k \<Rightarrow> 'v \<Rightarrow> ('k \<times> 'v) list" where
  "dict_set [] k v = [(k, v)]"
| "dict_set ((k', v') # d) k v = (if k' = k then (k, v) # d else (k', v') # dict_set d k v)"

text \<open>\<open>d.get(k, dflt)\<close>.\<close>

definition dict_get :: "('k \<times> 'v) list \<Rightarrow> 'k \<Rightarrow> 'v \<Rightarrow> 'v" where
  "dict_get d k dflt = (case map_of d k of Some v \<Rightarrow> v | None \<Rightarrow> dflt)"

text \<open>
  \<open>heapq.nlargest(n, d, key=d.get)\<close> is \<open>sorted(d, key=d.get, reverse=True)[:n]\<close>: a
  stable sort, so among equal scores the key inserted first comes first.
\<close>

definition nlargest :: "int \<Rightarrow> (string \<times> rat) list \<Rightarrow> string list" where
  "nlargest n d = map fst (take (nat n) (sort_key (\<lambda>(k, v). - v) d))"

text \<open>\<open>Counter(words)\<close> and \<open>Counter.most_common(k)\<close>, which is \<open>nlargest\<close> on the counts.\<close>

definition counter :: "string list \<Rightarrow> (string \<times> nat) list" where
  "counter ws =
     fold (\<lambda>w d. dict_set d w (dict_get d w 0 + 1)) ws []"

definition most_common :: "nat \<Rightarrow> (string \<times> nat) list \<Rightarrow> (string \<times> nat) list" where
  "most_common k d = take k (sort_key (\<lambda>(w, c). - int c) d)"

section \<open>Python values and exceptions\<close>

text \<open>
  The summarizers take whatever object the caller passes as \<open>text\<close>.  \<open>re.sub\<close> raises
  \<open>TypeError\<close> on anything but a string, and that is the only statement of either
  summarizer that can raise: the calls into NLTK are guarded where they are made, and the
  two divisions are guarded by tests on their divisors.  The message is the one CPython
  gives from version 3.11 on.
\<close>

datatype pyval = PyStr string | PyNone | PyInt int

datatype exn = TypeError string

fun str_exn :: "exn \<Rightarrow> string" where
  "str_exn (TypeError msg) = msg"

definition type_name :: "pyval \<Rightarrow> string" where
  "type_name v = (case v of PyStr _ \<Rightarrow> ''str'' | PyNone \<Rightarrow> ''NoneType'' | PyInt _ \<Rightarrow> ''int'')"

definition clean_text_py :: "pyval \<Rightarrow> exn + string" where
  "clean_text_py v =
     (case v of
        PyStr s \<Rightarrow> Inr (clean_text s)
      | _ \<Rightarrow> Inl (TypeError (''expected string or bytes-like object, got '' @
                             [CHR 0x27] @ type_name v @ [CHR 0x27])))"

section \<open>Extractive summarizer\<close>

definition qualifies :: "string set \<Rightarrow> string \<Rightarrow> bool" where
  "qualifies stop_words word \<longleftrightarrow> word \<notin> stop_words \<and> length word > 2 \<and> isalnum word"

definition build_word_freq :: "backend \<Rightarrow> string list \<Rightarrow> (string \<times> nat) list" where
  "build_word_freq b sentences =
     fold (\<lambda>sentence word_freq.
             fold (\<lambda>word word_freq.
                     if qualifies (get_stopwords b) word
                     then dict_set word_freq word (dict_get word_freq word 0 + 1)
                     else word_freq)
                  (tokenize_words b sentence) word_freq)
          sentences []"

text \<open>The bonus for the sentence at index \<open>i\<close> among \<open>n\<close> sentences.\<close>

definition position_bonus :: "nat \<Rightarrow> nat \<Rightarrow> rat" where
  "position_bonus n i =
     (if of_nat i < float_mul (float_of_int (int n)) (float_literal (3 / 10)) then float_literal (12 / 10)
      else if float_mul (float_of_int (int n)) (float_literal (7 / 10)) < of_nat i then float_literal (11 / 10)
      else 1)"

text \<open>
  The score of one sentence; \<open>None\<close> when none of its words is in the frequency table, in
  which case the sentence gets no entry in \<open>sentence_scores\<close>.
\<close>

definition score_sentence :: "backend \<Rightarrow> (string \<times> nat) list \<Rightarrow> nat \<Rightarrow> nat \<Rightarrow> string \<Rightarrow> rat option" where
  "score_sentence b word_freq n i sentence =
     (let hits = List.map_filter (map_of word_freq) (tokenize_words b sentence);
          score = sum_list hits;
          word_count = length hits
      in if word_count > 0
         then Some (float_mul (int_true_div (int score) (int word_count)) (position_bonus n i))
         else None)"

definition build_scores :: "backend \<Rightarrow> (string \<times> nat) list \<Rightarrow> string list \<Rightarrow> (string \<times> rat) list" where
  "build_scores b word_freq sentences =
     fold (\<lambda>(i, sentence) sentence_scores.
             case score_sentence b word_freq (length sentences) i sentence of
               Some v \<Rightarrow> dict_set sentence_scores sentence v
             | None \<Rightarrow> sentence_scores)
          (enumerate 0 sentences) []"

definition top_sentences :: "backend \<Rightarrow> string list \<Rightarrow> int \<Rightarrow> string list" where
  "top_sentences b sentences num_sentences =
     nlargest num_sentences (build_scores b (build_word_freq b sentences) sentences)"

definition summary_sentences :: "backend \<Rightarrow> string list \<Rightarrow> int \<Rightarrow> string list" where
  "summary_sentences b sentences num_sentences =
     filter (\<lambda>sentence. sentence \<in> set (top_sentences b sentences num_sentences)) sentences"

text \<open>The body of the \<open>try\<close> block, and the function with its handler.\<close>

definition extractive_body :: "backend \<Rightarrow> pyval \<Rightarrow> int \<Rightarrow> exn + string" where
  "extractive_body b text num_sentences =
     (case clean_text_py text of
        Inl e \<Rightarrow> Inl e
      | Inr text' \<Rightarrow>
          (let sentences = tokenize_sentences b text' in
           if int (length sentences) \<le> num_sentences then Inr (str_join sentences)
           else Inr (str_join (summary_sentences b sentences num_sentences))))"

definition extractive_summarize :: "backend \<Rightarrow> pyval \<Rightarrow> int \<Rightarrow> string" where
  "extractive_summarize b text num_sentences =
     (case extractive_body b text num_sentences of
        Inr summary \<Rightarrow> summary
      | Inl e \<Rightarrow> ''Error during summarization: '' @ str_exn e)"

section \<open>Budgeted keyword summarizer\<close>

definition important_words :: "backend \<Rightarrow> string \<Rightarrow> string list" where
  "important_words b text =
     map fst (most_common 30
       (counter (filter (qualifies (get_stopwords b)) (tokenize_words b text))))"

text \<open>
  The entry one sentence contributes to \<open>scored_sentences\<close>, if any.  The importance is
  the size of the intersection of two sets: the distinct words of the sentence that are
  important.
\<close>

definition score_candidate :: "backend \<Rightarrow> string list \<Rightarrow> string \<Rightarrow> (rat \<times> string \<times> nat) list" where
  "score_candidate b important sentence =
     (let importance_score =
            length (filter (\<lambda>w. w \<in> set important) (remdups (tokenize_words b sentence)));
          sentence_length = length (str_split sentence)
      in if 5 \<le> sentence_length \<and> sentence_length \<le> 50 \<and> importance_score > 0
         then [(int_true_div (int importance_score) (int sentence_length), sentence, sentence_length)]
         else [])"

text \<open>
  \<open>scored_sentences\<close> after \<open>sort(reverse=True)\<close>: tuples compare lexicographically, strings
  by code point; equal tuples are identical, so the descending order is the reverse of the
  ascending one.
\<close>

definition scored_sentences :: "backend \<Rightarrow> string \<Rightarrow> string list \<Rightarrow> (rat \<times> string \<times> nat) list" where
  "scored_sentences b text sentences =
     rev (sort (concat (map (score_candidate b (important_words b text)) sentences)))"

text \<open>
  The accumulation loop, with \<open>summary_parts\<close> and \<open>total_words\<close> as arguments.  The three
  ways out of an iteration are the source's: go on with the next tuple, \<open>break\<close> after a
  truncated sentence, \<open>break\<close> in the last \<open>else\<close>.
\<close>

fun accumulate :: "int \<Rightarrow> (rat \<times> string \<times> nat) list \<Rightarrow> string list \<Rightarrow> nat \<Rightarrow> string list" where
  "accumulate target_length [] summary_parts total_words = summary_parts"
| "accumulate target_length ((score, sentence, len) # rest) summary_parts total_words =
     (if int (total_words + len) \<le> target_length
      then accumulate target_length rest (summary_parts @ [sentence]) (total_words + len)
      else if of_nat total_words < float_mul (float_of_int target_length) (float_literal (8 / 10))
      then (let words_remaining = target_length - int total_words in
            if words_remaining \<ge> 10
            then summary_parts @
                   [str_join (take (nat (words_remaining - 1)) (str_split sentence)) @ ''...'']
            else accumulate target_length rest summary_parts total_words)
      else summary_parts)"

definition simple_abstractive_body :: "backend \<Rightarrow> pyval \<Rightarrow> int \<Rightarrow> exn + string" where
  "simple_abstractive_body b text target_length =
     (case clean_text_py text of
        Inl e \<Rightarrow> Inl e
      | Inr text' \<Rightarrow>
          (let sentences = tokenize_sentences b text';
               current_length = length (str_split text')
           in if int current_length \<le> target_length then Inr text'
              else Inr (str_join
                     (accumulate target_length (scored_sentences b text' sentences) [] 0))))"

definition simple_abstractive_summarize :: "backend \<Rightarrow> pyval \<Rightarrow> int \<Rightarrow> string" where
  "simple_abstractive_summarize b text target_length =
     (case simple_abstractive_body b text target_length of
        Inr summary \<Rightarrow> summary
      | Inl e \<Rightarrow> ''Error during summarization: '' @ str_exn e)"

section \<open>Notions used in the statements\<close>

text \<open>
  A token is a non-empty string without whitespace; the word count of a list of parts is
  the number of words of their join.
\<close>

definition is_token :: "string \<Rightarrow> bool" where
  "is_token w \<longleftrightarrow> w \<noteq> [] \<and> list_all (\<lambda>c. \<not> is_space c) w"

definition word_count :: "string list \<Rightarrow> nat" where
  "word_count parts = length (str_split (str_join parts))"

text \<open>
  A string is single-spaced when its only whitespace characters are single blanks, none
  of them next to another one; the flag says that the previous character was a blank.
\<close>

fun single_spaced :: "bool \<Rightarrow> string \<Rightarrow> bool" where
  "single_spaced after_space [] = True"
| "single_spaced after_space (c # cs) =
     (if is_space c then c = CHR '' '' \<and> \<not> after_space \<and> single_spaced True cs
      else single_spaced False cs)"

text \<open>
  The positional rule as the specification words it: two windows, each with its own
  factor, both factors applied when a sentence lies in both windows.
\<close>

definition in_first_30_percent :: "nat \<Rightarrow> nat \<Rightarrow> bool" where
  "in_first_30_percent n i \<longleftrightarrow>
     of_nat i < float_mul (float_of_int (int n)) (float_literal (3 / 10))"

definition in_last_30_percent :: "nat \<Rightarrow> nat \<Rightarrow> bool" where
  "in_last_30_percent n i \<longleftrightarrow>
     float_mul (float_of_int (int n)) (float_literal (7 / 10)) < of_nat i"

definition spec_cumulative_bonus :: "nat \<Rightarrow> nat \<Rightarrow> rat" where
  "spec_cumulative_bonus n i =
     (if in_first_30_percent n i then float_literal (12 / 10) else 1) *
     (if in_last_30_percent n i then float_literal (11 / 10) else 1)"

text \<open>
  The maximal runs of characters satisfying \<open>P\<close>; \<open>cur\<close> holds the run being read,
  reversed.  \<open>spec_letter_runs\<close> is the word splitting as the specification words it: the
  maximal runs of two or more letters, lower-cased.  \<open>letter_tokens\<close> keeps, among the
  maximal runs of word characters of the lower-cased text, those made of two or more ASCII
  letters.
\<close>

fun runs_from :: "(char \<Rightarrow> bool) \<Rightarrow> string \<Rightarrow> string \<Rightarrow> string list" where
  "runs_from P cur [] = (if cur = [] then [] else [rev cur])"
| "runs_from P cur (c # cs) =
     (if P c then runs_from P (c # cur) cs
      else if cur = [] then runs_from P [] cs else rev cur # runs_from P [] cs)"

definition runs :: "(char \<Rightarrow> bool) \<Rightarrow> string \<Rightarrow> string list" where
  "runs P s = runs_from P [] s"

definition spec_letter_runs :: "string \<Rightarrow> string list" where
  "spec_letter_runs text = map str_lower (filter (\<lambda>r. 2 \<le> length r) (runs is_letter_ascii text))"

definition letter_token :: "string \<Rightarrow> bool" where
  "letter_token r \<longleftrightarrow> 2 \<le> length r \<and> list_all is_letter_ascii r"

definition letter_tokens :: "string \<Rightarrow> string list" where
  "letter_tokens text = filter letter_token (runs is_word (str_lower text))"

text \<open>
  A sentence has a qualifying token when one of its words passes the filter of the
  frequency table: not a stopword, longer than two characters, alphanumeric.
\<close>

definition has_qualifying_token :: "backend \<Rightarrow> string \<Rightarrow> bool" where
  "has_qualifying_token b sentence \<longleftrightarrow>
     list_ex (qualifies (get_stopwords b)) (tokenize_words b sentence)"

section \<open>Concrete inputs\<close>

text \<open>
  Four backends: the simple mode (NLTK missing at import time), an NLTK whose every call
  raises, a small stand-in for a working NLTK, and an NLTK whose stopword corpus is empty.
\<close>

definition simple_mode :: backend where
  "simple_mode = \<lparr>NLTK_AVAILABLE = False, sent_tokenize = (\<lambda>_. None),
     word_tokenize = (\<lambda>_. None), stopwords_words = None\<rparr>"

definition failing_nltk :: backend where
  "failing_nltk = \<lparr>NLTK_AVAILABLE = True, sent_tokenize = (\<lambda>_. None),
     word_tokenize = (\<lambda>_. None), stopwords_words = None\<rparr>"

definition toy_nltk :: backend where
  "toy_nltk = \<lparr>NLTK_AVAILABLE = True, sent_tokenize = (\<lambda>s. Some (simple_sent_tokenize s)),
     word_tokenize = (\<lambda>s. Some (str_split s)), stopwords_words = Some [''the'', ''of'']\<rparr>"

definition empty_corpus_nltk :: backend where
  "empty_corpus_nltk = \<lparr>NLTK_AVAILABLE = True, sent_tokenize = (\<lambda>_. None),
     word_tokenize = (\<lambda>_. None), stopwords_words = Some []\<rparr>"

definition cats_doc :: string where
  "cats_doc = ''Cats chase mice!   Dogs chase cats @ home. Mice eat cheese.''"

definition cats_sentences :: "string list" where
  "cats_sentences = [''Cats chase mice!'', ''Dogs chase cats  home.'', ''Mice eat cheese.'']"

text \<open>
  A document of three sentences with 12, 9 and 5 words, in that order of score; a document
  with two sentences made of stopwords only; a document with a repeated sentence.
\<close>

definition nato_doc :: string where
  "nato_doc = ''Alpha bravo charlie delta echo foxtrot golf hotel india juliet kilo lima. Mike november oscar papa quebec romeo sierra tango the. Uniform victor whiskey xray of.''"

definition nato1 :: string where
  "nato1 = ''Alpha bravo charlie delta echo foxtrot golf hotel india juliet kilo lima.''"

definition nato2 :: string where
  "nato2 = ''Mike november oscar papa quebec romeo sierra tango the.''"

definition nato3 :: string where
  "nato3 = ''Uniform victor whiskey xray of.''"

definition nato_scored :: "(rat \<times> string \<times> nat) list" where
  "nato_scored = [(1, nato1, 12), (2001599834386887 / 2251799813685248, nato2, 9),
                  (3602879701896397 / 4503599627370496, nato3, 5)]"

definition quiet_doc :: string where
  "quiet_doc = ''Cats chase mice today. It is what it is. They were here before.''"

definition quiet_sentences :: "string list" where
  "quiet_sentences = [''Cats chase mice today.'', ''It is what it is.'', ''They were here before.'']"

definition twin_doc :: string where
  "twin_doc = ''Cats chase mice. Cats chase mice. Dogs chase cats.''"

definition twin_sentences :: "string list" where
  "twin_sentences = [''Cats chase mice.'', ''Cats chase mice.'', ''Dogs chase cats.'']"

section \<open>Facts about strings\<close>

lemma is_space_blank [simp]: "is_space (CHR '' '')"
  by (simp add: is_space_def)

lemma dropWhile_all_space: "list_all is_space s \<Longrightarrow> dropWhile is_space s = []"
  by (induction s) auto

lemma str_strip_all_space: "list_all is_space s \<Longrightarrow> str_strip s = []"
  by (simp add: str_strip_def dropWhile_all_space)

lemma collapse_from_all_space: "list_all is_space s \<Longrightarrow> list_all is_space (collapse_from r s)"
  by (induction s arbitrary: r) auto

lemma clean_text_all_space: "list_all is_space s \<Longrightarrow> clean_text s = []"
proof -
  assume "list_all is_space s"
  then have "list_all is_space (collapse_whitespace s)"
    by (simp add: collapse_whitespace_def collapse_from_all_space)
  then have "list_all is_space (remove_special (collapse_whitespace s))"
    by (simp add: remove_special_def list_all_iff)
  then show ?thesis
    by (simp add: clean_text_def str_strip_all_space)
qed

lemma simple_sent_tokenize_empty: "simple_sent_tokenize [] = []"
  by (simp add: simple_sent_tokenize_def str_strip_def)

lemma str_split_empty: "str_split [] = []"
  by (simp add: str_split_def)

text \<open>
  Splitting a join at whitespace gives the words of the parts, and a truncated sentence
  has as many words as were kept.
\<close>

lemma split_from_append_blank:
  "split_from cur (a @ CHR '' '' # b) = split_from cur a @ split_from [] b"
  by (induction a arbitrary: cur) auto

lemma str_split_append_blank: "str_split (a @ CHR '' '' # b) = str_split a @ str_split b"
  by (simp add: str_split_def split_from_append_blank)

lemma str_split_join: "str_split (str_join ps) = concat (map str_split ps)"
  by (induction ps rule: str_join.induct) (simp_all add: str_split_empty str_split_append_blank)

lemma split_from_token:
  "list_all (\<lambda>c. \<not> is_space c) w \<Longrightarrow> cur \<noteq> [] \<or> w \<noteq> [] \<Longrightarrow> split_from cur w = [rev cur @ w]"
  by (induction w arbitrary: cur) auto

lemma str_split_token: "is_token w \<Longrightarrow> str_split w = [w]"
  by (simp add: is_token_def str_split_def split_from_token)

lemma split_from_tokens:
  "list_all (\<lambda>c. \<not> is_space c) cur \<Longrightarrow> list_all is_token (split_from cur s)"
  by (induction s arbitrary: cur) (auto simp: is_token_def)

lemma str_split_tokens: "list_all is_token (str_split s)"
  by (simp add: str_split_def split_from_tokens)

lemma is_token_append: "is_token u \<Longrightarrow> is_token v \<Longrightarrow> is_token (u @ v)"
  by (simp add: is_token_def)

lemma length_split_join_suffix:
  "list_all is_token us \<Longrightarrow> is_token t \<Longrightarrow>
   length (str_split (str_join us @ t)) = (if us = [] then 1 else length us)"
proof (induction us rule: str_join.induct)
  case 1
  then show ?case by (simp add: str_split_token)
next
  case (2 p)
  then show ?case by (simp add: str_split_token is_token_append)
next
  case (3 p q ps)
  then show ?case by (simp add: str_split_append_blank str_split_token)
qed

lemma word_count_snoc: "word_count (parts @ [p]) = word_count parts + length (str_split p)"
  by (simp add: word_count_def str_split_join)

lemma is_token_dots: "is_token ''...''"
  by (simp add: is_token_def is_space_def)

lemma truncated_length:
  "1 \<le> k \<Longrightarrow> length (str_split (str_join (take k (str_split s)) @ ''...'')) \<le> k"
proof -
  assume k: "1 \<le> k"
  have "list_all is_token (take k (str_split s))"
    using str_split_tokens [of s] by (auto simp: list_all_iff dest: in_set_takeD)
  then have "length (str_split (str_join (take k (str_split s)) @ ''...'')) =
      (if take k (str_split s) = [] then 1 else length (take k (str_split s)))"
    using is_token_dots by (rule length_split_join_suffix)
  then show ?thesis using k by (simp split: if_splits)
qed

text \<open>
  The normalizer on its own output: the result consists of kept characters only, and on
  such a string a further pass changes nothing.  A third pass therefore never differs
  from the second, while the second can differ from the first.
\<close>

lemma collapse_from_single_spaced: "single_spaced r (collapse_from r s)"
  by (induction s arbitrary: r) auto

lemma collapse_from_fixed: "single_spaced r s \<Longrightarrow> collapse_from r s = s"
  by (induction s arbitrary: r) (auto split: if_splits)

lemma single_spaced_weaken: "single_spaced r s \<Longrightarrow> single_spaced False s"
  by (cases s) (auto split: if_splits)

lemma single_spaced_prefix: "single_spaced r (xs @ ys) \<Longrightarrow> single_spaced r xs"
  by (induction xs arbitrary: r) (auto split: if_splits)

lemma single_spaced_dropWhile: "single_spaced r s \<Longrightarrow> single_spaced False (dropWhile is_space s)"
proof (induction s arbitrary: r)
  case Nil
  then show ?case by simp
next
  case (Cons c cs)
  show ?case
  proof (cases "is_space c")
    case True
    then have "single_spaced True cs" using Cons.prems by simp
    then show ?thesis using True Cons.IH by simp
  next
    case False
    then show ?thesis using Cons.prems single_spaced_weaken [of r "c # cs"] by simp
  qed
qed

lemma strip_prefix: "\<exists>zs. xs = rev (dropWhile P (rev xs)) @ zs"
proof -
  have "rev xs = takeWhile P (rev xs) @ dropWhile P (rev xs)" by simp
  then have "xs = rev (dropWhile P (rev xs)) @ rev (takeWhile P (rev xs))"
    by (metis rev_append rev_rev_ident)
  then show ?thesis by blast
qed

lemma single_spaced_strip: "single_spaced r s \<Longrightarrow> single_spaced False (str_strip s)"
proof -
  assume "single_spaced r s"
  then have d: "single_spaced False (dropWhile is_space s)" by (rule single_spaced_dropWhile)
  obtain zs where "dropWhile is_space s = str_strip s @ zs"
    unfolding str_strip_def using strip_prefix [of "dropWhile is_space s" is_space] by blast
  then show ?thesis using d single_spaced_prefix [of False "str_strip s" zs] by simp
qed

lemma dropWhile_fixed: "xs = [] \<or> \<not> P (hd xs) \<Longrightarrow> dropWhile P xs = xs"
  by (cases xs) auto

lemma str_strip_idem: "str_strip (str_strip s) = str_strip s"
proof -
  define t where "t = dropWhile is_space s"
  define u where "u = rev (dropWhile is_space (rev t))"
  have u: "str_strip s = u" by (simp add: str_strip_def t_def u_def)
  have t_hd: "t = [] \<or> \<not> is_space (hd t)"
    unfolding t_def using hd_dropWhile [of is_space s] by blast
  obtain zs where tz: "t = u @ zs" unfolding u_def using strip_prefix [of t is_space] by blast
  have u_hd: "u = [] \<or> \<not> is_space (hd u)"
    using t_hd tz by (cases u) auto
  have ru_hd: "rev u = [] \<or> \<not> is_space (hd (rev u))"
    unfolding u_def rev_rev_ident using hd_dropWhile [of is_space "rev t"] by blast
  have "dropWhile is_space u = u" using u_hd by (rule dropWhile_fixed)
  moreover have "dropWhile is_space (rev u) = rev u" using ru_hd by (rule dropWhile_fixed)
  ultimately have "str_strip u = u" by (simp add: str_strip_def)
  then show ?thesis unfolding u .
qed

lemma set_str_strip: "set (str_strip s) \<subseteq> set s"
proof -
  have "set (str_strip s) \<subseteq> set (dropWhile is_space s)"
    unfolding str_strip_def set_rev using set_dropWhileD [of _ is_space "rev (dropWhile is_space s)"]
    by auto
  then show ?thesis using set_dropWhileD [of _ is_space s] by auto
qed

lemma set_collapse_from: "set (collapse_from r s) \<subseteq> insert (CHR '' '') (set s)"
  by (induction s arbitrary: r) auto

lemma keep_char_blank: "keep_char (CHR '' '')"
  by (simp add: keep_char_def)

lemma clean_text_kept: "list_all keep_char (clean_text s)"
  using set_str_strip [of "remove_special (collapse_whitespace s)"]
  by (auto simp: clean_text_def remove_special_def list_all_iff)

lemma clean_text_of_kept:
  assumes "list_all keep_char s"
  shows "clean_text s = str_strip (collapse_whitespace s)"
proof -
  have "list_all keep_char (collapse_whitespace s)"
    using assms set_collapse_from [of False s] keep_char_blank
    by (auto simp: collapse_whitespace_def list_all_iff)
  then have "remove_special (collapse_whitespace s) = collapse_whitespace s"
    by (simp add: remove_special_def list_all_iff)
  then show ?thesis by (simp add: clean_text_def)
qed

lemma clean_text_idempotent_on_kept:
  assumes "list_all keep_char s"
  shows "clean_text (clean_text s) = clean_text s"
proof -
  define u where "u = str_strip (collapse_whitespace s)"
  have cu: "clean_text s = u" using assms by (simp add: clean_text_of_kept u_def)
  have ku: "list_all keep_char u" using clean_text_kept [of s] unfolding cu .
  have "single_spaced False (collapse_whitespace s)"
    unfolding collapse_whitespace_def by (rule collapse_from_single_spaced)
  then have "single_spaced False u" unfolding u_def by (rule single_spaced_strip)
  then have "collapse_whitespace u = u"
    unfolding collapse_whitespace_def by (rule collapse_from_fixed)
  then have "clean_text u = str_strip u" using ku by (simp add: clean_text_of_kept)
  also have "\<dots> = u" unfolding u_def by (rule str_strip_idem)
  finally show ?thesis unfolding cu .
qed

lemma clean_text_third_pass: "clean_text (clean_text (clean_text s)) = clean_text (clean_text s)"
  using clean_text_kept [of s] by (rule clean_text_idempotent_on_kept)

section \<open>The accumulation loop\<close>

text \<open>
  The invariant of the loop: the word count of the parts is \<open>total_words\<close> and does not
  exceed the target.
\<close>

lemma accumulate_within_budget:
  "\<forall>(score, sentence, len) \<in> set xs. len = length (str_split sentence) \<Longrightarrow>
   word_count parts = tot \<Longrightarrow> int tot \<le> target \<Longrightarrow>
   int (word_count (accumulate target xs parts tot)) \<le> target"
proof (induction target xs parts tot rule: accumulate.induct)
  case (1 target parts tot)
  then show ?case by simp
next
  case (2 target score sentence len rest parts tot)
  show ?case
  proof (cases "int (tot + len) \<le> target")
    case True
    have "word_count (parts @ [sentence]) = tot + len"
      using "2.prems" by (simp add: word_count_snoc)
    then show ?thesis
      using True "2.IH"(1) "2.prems" by simp
  next
    case over: False
    show ?thesis
    proof (cases "of_nat tot < float_mul (float_of_int target) (float_literal (8 / 10))")
      case below: True
      show ?thesis
      proof (cases "target - int tot \<ge> 10")
        case True
        have "length (str_split (str_join (take (nat (target - int tot - 1)) (str_split sentence)) @ ''...''))
            \<le> nat (target - int tot - 1)"
          using True by (intro truncated_length) simp
        then have "int (word_count (parts @
             [str_join (take (nat (target - int tot - 1)) (str_split sentence)) @ ''...''])) \<le> target"
          using "2.prems"(2) True unfolding word_count_snoc by linarith
        then show ?thesis using over below True by (simp add: Let_def)
      next
        case False
        then show ?thesis
          using over below "2.IH"(2) "2.prems" by (simp add: Let_def)
      qed
    next
      case False
      then show ?thesis using over "2.prems" by simp
    qed
  qed
qed

lemma scored_sentences_lengths:
  "\<forall>(score, sentence, len) \<in> set (scored_sentences b text sentences). len = length (str_split sentence)"
  by (auto simp: scored_sentences_def score_candidate_def Let_def split: if_splits)

lemma accumulate_nothing: "accumulate target [] parts tot = parts"
  by simp

lemma simple_abstractive_on_str:
  "simple_abstractive_summarize b (PyStr text) t =
     (if int (length (str_split (clean_text text))) \<le> t then clean_text text
      else str_join (accumulate t
             (scored_sentences b (clean_text text) (tokenize_sentences b (clean_text text))) [] 0))"
  by (simp add: simple_abstractive_summarize_def simple_abstractive_body_def clean_text_py_def Let_def)

section \<open>Rounding\<close>

text \<open>Rounding to a double is monotone on the non-negative rationals.\<close>

lemma bits_pos: "0 < n \<Longrightarrow> 0 < bits n"
  by (subst bits.simps) simp

lemma bits_bounds: "0 < n \<Longrightarrow> 2 ^ (bits n - 1) \<le> n \<and> n < 2 ^ bits n"
proof (induction n rule: bits.induct)
  case (1 n)
  show ?case
  proof (cases "n div 2 = 0")
    case True
    then have "n = 1" using "1.prems" by presburger
    then show ?thesis by (simp add: bits.simps)
  next
    case False
    then have pos: "0 < n div 2" by simp
    have b: "bits n = Suc (bits (n div 2))"
      using "1.prems" by (subst bits.simps) simp
    have ih: "2 ^ (bits (n div 2) - 1) \<le> n div 2 \<and> n div 2 < 2 ^ bits (n div 2)"
      using "1.IH" "1.prems" pos by simp
    have p: "(2::nat) ^ bits (n div 2) = 2 * 2 ^ (bits (n div 2) - 1)"
      using bits_pos [OF pos] by (cases "bits (n div 2)") simp_all
    have "2 ^ (bits n - 1) \<le> n"
      using ih p b by simp presburger
    moreover have "n < 2 ^ bits n"
      using ih b by simp presburger
    ultimately show ?thesis by simp
  qed
qed

lemma ilog2_bounds:
  assumes "0 < x"
  shows "power_int 2 (ilog2 x) \<le> x \<and> x < power_int 2 (ilog2 x + 1)"
proof (cases "1 \<le> x")
  case True
  define n where "n = nat \<lfloor>x\<rfloor>"
  have npos: "0 < n" using True by (simp add: n_def)
  have nx: "of_nat n \<le> x" "x < of_nat n + 1"
    using True unfolding n_def by (simp_all add: of_nat_nat) linarith+
  have e: "ilog2 x = int (bits n) - 1"
    using True by (simp add: ilog2_def n_def)
  have bb: "2 ^ (bits n - 1) \<le> n" "n < 2 ^ bits n"
    using bits_bounds [OF npos] by simp_all
  have e1: "ilog2 x = int (bits n - 1)"
    using e bits_pos [OF npos] by simp
  have "power_int 2 (ilog2 x) = (2::rat) ^ (bits n - 1)"
    unfolding e1 by simp
  also have "\<dots> = of_nat (2 ^ (bits n - 1))" by simp
  also have "\<dots> \<le> of_nat n" using bb(1) by (simp only: of_nat_le_iff)
  finally have lo: "power_int 2 (ilog2 x) \<le> x" using nx(1) by simp
  have "Suc n \<le> 2 ^ bits n" using bb(2) by simp
  then have "(of_nat (Suc n) :: rat) \<le> of_nat (2 ^ bits n)" by (simp only: of_nat_le_iff)
  then have "x < (2::rat) ^ bits n" using nx(2) by simp
  moreover have "power_int 2 (ilog2 x + 1) = (2::rat) ^ bits n"
    using e by (simp add: power_int_def)
  ultimately show ?thesis using lo by simp
next
  case False
  then have x1: "x < 1" by simp
  define y where "y = 1 / x"
  have y1: "1 < y" using assms x1 by (simp add: y_def)
  define m where "m = nat (\<lceil>y\<rceil> - 1)"
  have c2: "2 \<le> \<lceil>y\<rceil>" using y1 by linarith
  have mpos: "0 < m" using c2 by (simp add: m_def)
  have my: "of_nat m < y" "y \<le> of_nat m + 1"
    using c2 unfolding m_def by (simp_all add: of_nat_nat) linarith+
  have e: "ilog2 x = - int (bits m)"
    using False by (simp add: ilog2_def m_def y_def)
  have bb: "2 ^ (bits m - 1) \<le> m" "m < 2 ^ bits m"
    using bits_bounds [OF mpos] by simp_all
  have "Suc m \<le> 2 ^ bits m" using bb(2) by simp
  then have "(of_nat (Suc m) :: rat) \<le> of_nat (2 ^ bits m)" by (simp only: of_nat_le_iff)
  then have yle: "y \<le> (2::rat) ^ bits m" using my(2) by simp
  have "(2::rat) ^ (bits m - 1) = of_nat (2 ^ (bits m - 1))" by simp
  also have "\<dots> \<le> of_nat m" using bb(1) by (simp only: of_nat_le_iff)
  also have "\<dots> < y" by (rule my(1))
  finally have ylt: "(2::rat) ^ (bits m - 1) < y" .
  have xy: "x = 1 / y" using assms by (simp add: y_def)
  have "power_int 2 (ilog2 x) = 1 / (2::rat) ^ bits m"
    unfolding e by (simp add: power_int_minus_divide)
  also have "\<dots> \<le> 1 / y" using yle y1 by (simp add: frac_le)
  finally have lo: "power_int 2 (ilog2 x) \<le> x" using xy by simp
  have e2: "ilog2 x + 1 = - int (bits m - 1)"
    using e bits_pos [OF mpos] by simp
  have "power_int 2 (ilog2 x + 1) = 1 / (2::rat) ^ (bits m - 1)"
    unfolding e2 by (simp add: power_int_minus_divide)
  moreover have "1 / y < 1 / (2::rat) ^ (bits m - 1)"
    using ylt by (simp add: frac_less2)
  ultimately show ?thesis using lo xy by simp
qed

lemma ilog2_mono:
  assumes "0 < x" "x \<le> y"
  shows "ilog2 x \<le> ilog2 y"
proof (rule ccontr)
  assume "\<not> ilog2 x \<le> ilog2 y"
  then have "ilog2 y + 1 \<le> ilog2 x" by simp
  then have "power_int (2::rat) (ilog2 y + 1) \<le> power_int 2 (ilog2 x)"
    by (intro power_int_increasing) simp_all
  moreover have "y < power_int 2 (ilog2 y + 1)" "power_int 2 (ilog2 x) \<le> x"
    using ilog2_bounds [of x] ilog2_bounds [of y] assms by simp_all
  ultimately show False using assms by linarith
qed

lemma round_half_even_bounds: "\<lfloor>m\<rfloor> \<le> round_half_even m \<and> round_half_even m \<le> \<lfloor>m\<rfloor> + 1"
  by (simp add: round_half_even_def Let_def)

lemma round_half_even_of_int [simp]: "round_half_even (of_int z) = z"
  by (simp add: round_half_even_def)

lemma round_half_even_mono:
  assumes "x \<le> y"
  shows "round_half_even x \<le> round_half_even y"
proof (cases "\<lfloor>x\<rfloor> = \<lfloor>y\<rfloor>")
  case True
  have "x - of_int \<lfloor>x\<rfloor> \<le> y - of_int \<lfloor>y\<rfloor>" using assms True by simp
  then show ?thesis
    using True by (auto simp: round_half_even_def Let_def)
next
  case False
  then have "\<lfloor>x\<rfloor> < \<lfloor>y\<rfloor>" using floor_mono [OF assms] by simp
  then show ?thesis
    using round_half_even_bounds [of x] round_half_even_bounds [of y] by linarith
qed

lemma round_double_pos_eq:
  "0 < x \<Longrightarrow> round_double x =
     of_int (round_half_even (x / power_int 2 (ilog2 x - 52))) * power_int 2 (ilog2 x - 52)"
  by (simp add: round_double_def Let_def)

lemma round_double_bounds:
  assumes "0 < x"
  shows "power_int 2 (ilog2 x) \<le> round_double x \<and> round_double x \<le> power_int 2 (ilog2 x + 1)"
proof -
  define q :: rat where "q = power_int 2 (ilog2 x - 52)"
  have qpos: "0 < q" by (simp add: q_def)
  have lo: "power_int 2 (ilog2 x) = 2 ^ 52 * q"
    unfolding q_def by (simp add: power_int_diff)
  have hi: "power_int 2 (ilog2 x + 1) = 2 ^ 53 * q"
    unfolding q_def by (simp add: power_int_diff power_int_add)
  have "2 ^ 52 * q \<le> x" "x < 2 ^ 53 * q"
    using ilog2_bounds [OF assms] lo hi by simp_all
  then have m: "of_int (2 ^ 52) \<le> x / q" "x / q \<le> of_int (2 ^ 53)"
    using qpos by (simp_all add: field_simps)
  have "round_half_even (of_int (2 ^ 52)) \<le> round_half_even (x / q)"
    "round_half_even (x / q) \<le> round_half_even (of_int (2 ^ 53))"
    using round_half_even_mono [OF m(1)] round_half_even_mono [OF m(2)] by simp_all
  then have "2 ^ 52 \<le> round_half_even (x / q)" "round_half_even (x / q) \<le> 2 ^ 53"
    by (simp_all only: round_half_even_of_int)
  then have "(of_int (2 ^ 52) :: rat) \<le> of_int (round_half_even (x / q))"
    "(of_int (round_half_even (x / q)) :: rat) \<le> of_int (2 ^ 53)"
    by (simp_all only: of_int_le_iff)
  then have "2 ^ 52 * q \<le> of_int (round_half_even (x / q)) * q"
    "of_int (round_half_even (x / q)) * q \<le> 2 ^ 53 * q"
    using qpos by simp_all
  then show ?thesis
    unfolding lo hi round_double_pos_eq [OF assms] q_def by simp
qed

lemma round_double_nonneg: "0 \<le> x \<Longrightarrow> 0 \<le> round_double x"
proof (cases "x = 0")
  case True
  then show ?thesis by (simp add: round_double_def)
next
  case False
  assume "0 \<le> x"
  then have "0 < x" using False by simp
  then have "power_int 2 (ilog2 x) \<le> round_double x"
    using round_double_bounds by simp
  moreover have "(0::rat) < power_int 2 (ilog2 x)" by simp
  ultimately show ?thesis by linarith
qed

lemma round_double_mono:
  assumes "0 \<le> x" "x \<le> y"
  shows "round_double x \<le> round_double y"
proof (cases "x = 0")
  case True
  then show ?thesis using assms round_double_nonneg [of y] by (simp add: round_double_def)
next
  case False
  then have xp: "0 < x" and yp: "0 < y" using assms by simp_all
  show ?thesis
  proof (cases "ilog2 x = ilog2 y")
    case True
    define q :: rat where "q = power_int 2 (ilog2 x - 52)"
    have qpos: "0 < q" by (simp add: q_def)
    have "x / q \<le> y / q" using assms qpos by (simp add: divide_right_mono)
    then have "round_half_even (x / q) \<le> round_half_even (y / q)"
      by (rule round_half_even_mono)
    then have "(of_int (round_half_even (x / q)) :: rat) \<le> of_int (round_half_even (y / q))"
      by (simp only: of_int_le_iff)
    then have "of_int (round_half_even (x / q)) * q \<le> of_int (round_half_even (y / q)) * q"
      using qpos by simp
    then show ?thesis
      unfolding round_double_pos_eq [OF xp] round_double_pos_eq [OF yp] True [symmetric] q_def .
  next
    case False
    then have "ilog2 x + 1 \<le> ilog2 y" using ilog2_mono [OF xp assms(2)] by simp
    then have "power_int (2::rat) (ilog2 x + 1) \<le> power_int 2 (ilog2 y)"
      by (intro power_int_increasing) simp_all
    then show ?thesis
      using round_double_bounds [OF xp] round_double_bounds [OF yp] by linarith
  qed
qed

lemma thresholds_ordered:
  "float_mul (float_of_int (int n)) (float_literal (3 / 10))
     \<le> float_mul (float_of_int (int n)) (float_literal (7 / 10))"
proof -
  have n0: "0 \<le> float_of_int (int n)"
    by (simp add: float_of_int_def round_double_nonneg)
  have l0: "0 \<le> float_literal (3 / 10)"
    by (simp add: float_literal_def round_double_nonneg)
  have l: "float_literal (3 / 10) \<le> float_literal (7 / 10)"
    unfolding float_literal_def by (intro round_double_mono) simp_all
  have "float_of_int (int n) * float_literal (3 / 10) \<le> float_of_int (int n) * float_literal (7 / 10)"
    using n0 l by (rule mult_left_mono [rotated])
  moreover have "0 \<le> float_of_int (int n) * float_literal (3 / 10)"
    using n0 l0 by simp
  ultimately show ?thesis
    unfolding float_mul_def by (intro round_double_mono)
qed

lemma windows_disjoint: "\<not> (in_first_30_percent n i \<and> in_last_30_percent n i)"
  using thresholds_ordered [of n] by (auto simp: in_first_30_percent_def in_last_30_percent_def)

section \<open>The word scan\<close>

text \<open>The scan of \<open>find_words\<close> returns the letter-only runs of word characters.\<close>

lemma letter_is_word: "is_letter_ascii c \<Longrightarrow> is_word c"
  by (auto simp: is_letter_ascii_def is_upper_ascii_def is_lower_ascii_def is_word_def is_alnum_def Let_def)

lemma runs_from_split:
  "runs_from P cur s =
     (if rev cur @ takeWhile P s = [] then [] else [rev cur @ takeWhile P s]) @
     runs_from P [] (dropWhile P s)"
proof (induction s arbitrary: cur)
  case Nil
  then show ?case by simp
next
  case (Cons c cs)
  show ?case
  proof (cases "P c")
    case True
    then show ?thesis using Cons.IH [of "c # cur"] by simp
  next
    case False
    then show ?thesis by simp
  qed
qed

lemma runs_Cons_in: "P c \<Longrightarrow> runs P (c # cs) = takeWhile P (c # cs) # runs P (dropWhile P (c # cs))"
  unfolding runs_def by (subst runs_from_split) simp

lemma runs_Cons_out: "\<not> P c \<Longrightarrow> runs P (c # cs) = runs P cs"
  by (simp add: runs_def)

lemma runs_Nil: "runs P [] = []"
  by (simp add: runs_def)

lemma takeWhile_letter_word:
  assumes "list_all is_letter_ascii (takeWhile is_word s)"
  shows "takeWhile is_letter_ascii s = takeWhile is_word s \<and>
         dropWhile is_letter_ascii s = dropWhile is_word s"
  using assms
proof (induction s)
  case Nil
  then show ?case by simp
next
  case (Cons c cs)
  then show ?case by (auto simp: letter_is_word)
qed

lemma dropWhile_word_hd: "dropWhile is_word s = [] \<or> \<not> is_word (hd (dropWhile is_word s))"
  using hd_dropWhile [of is_word s] by blast

lemma takeWhile_letters_all: "list_all is_letter_ascii (takeWhile is_letter_ascii s)"
  by (simp add: list_all_iff) (meson set_takeWhileD)

lemma takeWhile_word_when_bounded:
  assumes "dropWhile is_letter_ascii s = [] \<or> \<not> is_word (hd (dropWhile is_letter_ascii s))"
  shows "takeWhile is_word s = takeWhile is_letter_ascii s \<and>
         dropWhile is_word s = dropWhile is_letter_ascii s"
  using assms
proof (induction s)
  case Nil
  then show ?case by simp
next
  case (Cons c cs)
  show ?case
  proof (cases "is_letter_ascii c")
    case True
    then show ?thesis using Cons letter_is_word [OF True] by simp
  next
    case False
    then have "\<not> is_word c" using Cons.prems by simp
    then show ?thesis using False by simp
  qed
qed

lemma find_words_runs:
  "find_words pw s =
     filter letter_token (runs is_word (if pw then dropWhile is_word s else s))"
proof (induction pw s rule: find_words.induct)
  case (1 pw)
  then show ?case by (simp add: runs_Nil find_words.simps(1))
next
  case (2 pw c cs)
  define run where "run = takeWhile is_letter_ascii (c # cs)"
  define rest where "rest = dropWhile is_letter_ascii (c # cs)"
  define cond where "cond \<longleftrightarrow> \<not> pw \<and> 2 \<le> length run \<and> (rest = [] \<or> \<not> is_word (hd rest))"
  have unfold: "find_words pw (c # cs) =
      (if cond then run # find_words True rest else find_words (is_word c) cs)"
    unfolding cond_def run_def rest_def by (rule find_words.simps(2))
  have w_run: "takeWhile is_word (c # cs) = (if is_word c then c # takeWhile is_word cs else [])"
    and w_rest: "dropWhile is_word (c # cs) = (if is_word c then dropWhile is_word cs else c # cs)"
    by simp_all
  show ?case
  proof (cases cond)
    case True
    then have nopw: "\<not> pw" and len: "2 \<le> length run"
      and bound: "rest = [] \<or> \<not> is_word (hd rest)"
      by (simp_all add: cond_def)
    have "run \<noteq> []" using len by auto
    then have c: "is_letter_ascii c" unfolding run_def by (auto split: if_splits)
    then have w: "is_word c" by (rule letter_is_word)
    have tw: "takeWhile is_word (c # cs) = run" "dropWhile is_word (c # cs) = rest"
      using takeWhile_word_when_bounded [of "c # cs"] bound unfolding run_def rest_def by blast+
    have r: "runs is_word (c # cs) = run # runs is_word rest"
      using runs_Cons_in [of is_word c cs] w unfolding tw by simp
    have d: "dropWhile is_word rest = rest"
      using bound by (cases rest) auto
    have g: "letter_token run"
      using len takeWhile_letters_all [of "c # cs"] by (simp add: letter_token_def run_def)
    have ih: "find_words True rest = filter letter_token (runs is_word (dropWhile is_word rest))"
      using "2.IH"(1) True unfolding cond_def run_def rest_def by simp
    have "find_words pw (c # cs) = run # find_words True rest"
      unfolding unfold using True by simp
    then have "find_words pw (c # cs) = run # filter letter_token (runs is_word rest)"
      unfolding ih d .
    also have "\<dots> = filter letter_token (runs is_word (c # cs))"
      unfolding r using g by simp
    finally show ?thesis using nopw by (simp only: if_False)
  next
    case False
    have step: "find_words pw (c # cs) = find_words (is_word c) cs"
      unfolding unfold using False by simp
    have ih: "find_words (is_word c) cs =
        filter letter_token (runs is_word (if is_word c then dropWhile is_word cs else cs))"
      using "2.IH"(2) False unfolding cond_def run_def rest_def by blast
    show ?thesis
    proof (cases "is_word c")
      case w: True
      have ihw: "find_words pw (c # cs) =
          filter letter_token (runs is_word (dropWhile is_word (c # cs)))"
        unfolding step ih w_rest using w by simp
      show ?thesis
      proof (cases pw)
        case True
        then show ?thesis using ihw by (simp only: if_True)
      next
        case nopw: False
        have ng: "\<not> letter_token (takeWhile is_word (c # cs))"
        proof
          assume g: "letter_token (takeWhile is_word (c # cs))"
          then have "list_all is_letter_ascii (takeWhile is_word (c # cs))"
            by (simp add: letter_token_def)
          then have e: "run = takeWhile is_word (c # cs)" "rest = dropWhile is_word (c # cs)"
            using takeWhile_letter_word [of "c # cs"] unfolding run_def rest_def by blast+
          have "2 \<le> length run" using g unfolding e by (simp add: letter_token_def)
          moreover have "rest = [] \<or> \<not> is_word (hd rest)"
            unfolding e by (rule dropWhile_word_hd)
          ultimately show False using False nopw by (simp add: cond_def)
        qed
        have "runs is_word (c # cs) =
            takeWhile is_word (c # cs) # runs is_word (dropWhile is_word (c # cs))"
          using runs_Cons_in [of is_word c cs] w by simp
        then have "filter letter_token (runs is_word (c # cs)) =
            filter letter_token (runs is_word (dropWhile is_word (c # cs)))"
          using ng by (simp only: filter.simps if_False)
        then show ?thesis using ihw nopw by (simp only: if_False)
      qed
    next
      case nw: False
      have i: "find_words pw (c # cs) = filter letter_token (runs is_word cs)"
        unfolding step ih using nw by simp
      have "runs is_word (c # cs) = runs is_word cs"
        using nw by (rule runs_Cons_out)
      moreover have "dropWhile is_word (c # cs) = c # cs" using nw by simp
      ultimately show ?thesis unfolding i by simp
    qed
  qed
qed

section \<open>Scores and selection\<close>

lemma keys_dict_set:
  "map fst (dict_set d k v) = (if k \<in> fst ` set d then map fst d else map fst d @ [k])"
  by (induction d k v rule: dict_set.induct) auto

lemma set_keys_dict_set: "fst ` set (dict_set d k v) = insert k (fst ` set d)"
  by (induction d k v rule: dict_set.induct) auto

lemma distinct_keys_dict_set: "distinct (map fst d) \<Longrightarrow> distinct (map fst (dict_set d k v))"
  by (simp add: keys_dict_set)

text \<open>The keys of the word-frequency table are the qualifying words of the sentences.\<close>

lemma word_fold_keys:
  "fst ` set (fold (\<lambda>word word_freq.
                    if qualifies stop word then dict_set word_freq word (dict_get word_freq word 0 + 1)
                    else word_freq) ws d) =
   fst ` set d \<union> {w \<in> set ws. qualifies stop w}"
  by (induction ws arbitrary: d) (auto simp: set_keys_dict_set)

lemma sentence_fold_keys:
  "fst ` set (fold (\<lambda>sentence word_freq.
                    fold (\<lambda>word word_freq.
                            if qualifies stop word
                            then dict_set word_freq word (dict_get word_freq word 0 + 1)
                            else word_freq)
                         (tok sentence) word_freq) ss d) =
   fst ` set d \<union> {w. \<exists>s \<in> set ss. w \<in> set (tok s) \<and> qualifies stop w}"
proof (induction ss arbitrary: d)
  case Nil
  then show ?case by simp
next
  case (Cons s ss)
  show ?case
    unfolding fold_Cons comp_apply Cons.IH word_fold_keys by auto
qed

lemma build_word_freq_keys:
  "fst ` set (build_word_freq b sentences) =
     {w. \<exists>s \<in> set sentences. w \<in> set (tokenize_words b s) \<and> qualifies (get_stopwords b) w}"
  unfolding build_word_freq_def sentence_fold_keys by simp

lemma map_filter_empty_iff:
  "List.map_filter f xs = [] \<longleftrightarrow> (\<forall>x \<in> set xs. f x = None)"
  by (induction xs) (auto simp: List.map_filter_simps split: option.splits)

lemma score_sentence_Some_iff:
  "(\<exists>v. score_sentence b word_freq n i sentence = Some v) \<longleftrightarrow>
     (\<exists>w \<in> set (tokenize_words b sentence). w \<in> fst ` set word_freq)"
proof -
  have "(\<exists>v. score_sentence b word_freq n i sentence = Some v) \<longleftrightarrow>
      List.map_filter (map_of word_freq) (tokenize_words b sentence) \<noteq> []"
    by (simp add: score_sentence_def Let_def)
  also have "\<dots> \<longleftrightarrow> (\<exists>w \<in> set (tokenize_words b sentence). map_of word_freq w \<noteq> None)"
    by (simp add: map_filter_empty_iff)
  also have "\<dots> \<longleftrightarrow> (\<exists>w \<in> set (tokenize_words b sentence). w \<in> fst ` set word_freq)"
    by (simp add: map_of_eq_None_iff)
  finally show ?thesis .
qed

lemma scored_iff_qualifying:
  assumes "sentence \<in> set sentences"
  shows "(\<exists>v. score_sentence b (build_word_freq b sentences) n i sentence = Some v) \<longleftrightarrow>
         has_qualifying_token b sentence"
  unfolding score_sentence_Some_iff build_word_freq_keys has_qualifying_token_def list_ex_iff
  using assms by auto

text \<open>The keys of \<open>sentence_scores\<close>: the sentences that got a score, each once.\<close>

lemma score_fold_keys:
  "fst ` set (fold (\<lambda>(i, sentence) sentence_scores.
                    case score_sentence b word_freq n i sentence of
                      Some v \<Rightarrow> dict_set sentence_scores sentence v
                    | None \<Rightarrow> sentence_scores) (enumerate k ss) d) =
   fst ` set d \<union> {s \<in> set ss. \<exists>w \<in> set (tokenize_words b s). w \<in> fst ` set word_freq}"
proof (induction ss arbitrary: k d)
  case Nil
  then show ?case by simp
next
  case (Cons s ss)
  show ?case
  proof (cases "score_sentence b word_freq n k s")
    case None
    then have "\<not> (\<exists>w \<in> set (tokenize_words b s). w \<in> fst ` set word_freq)"
      using score_sentence_Some_iff [of b word_freq n k s] by simp
    then show ?thesis using None Cons.IH [of "Suc k" d] by auto
  next
    case (Some v)
    then have "\<exists>w \<in> set (tokenize_words b s). w \<in> fst ` set word_freq"
      using score_sentence_Some_iff [of b word_freq n k s] by blast
    then show ?thesis using Some Cons.IH [of "Suc k" "dict_set d s v"]
      by (auto simp: set_keys_dict_set)
  qed
qed

lemma score_fold_distinct:
  "distinct (map fst d) \<Longrightarrow>
   distinct (map fst (fold (\<lambda>(i, sentence) sentence_scores.
                    case score_sentence b word_freq n i sentence of
                      Some v \<Rightarrow> dict_set sentence_scores sentence v
                    | None \<Rightarrow> sentence_scores) (enumerate k ss) d))"
proof (induction ss arbitrary: k d)
  case Nil
  then show ?case by simp
next
  case (Cons s ss)
  then show ?case
    by (cases "score_sentence b word_freq n k s") (simp_all add: distinct_keys_dict_set)
qed

lemma build_scores_keys:
  "fst ` set (build_scores b (build_word_freq b sentences) sentences) =
     {s \<in> set sentences. has_qualifying_token b s}"
proof -
  have "fst ` set (build_scores b (build_word_freq b sentences) sentences) =
      {s \<in> set sentences. \<exists>w \<in> set (tokenize_words b s). w \<in> fst ` set (build_word_freq b sentences)}"
    unfolding build_scores_def score_fold_keys by simp
  also have "\<dots> = {s \<in> set sentences. has_qualifying_token b s}"
    unfolding build_word_freq_keys has_qualifying_token_def list_ex_iff by auto
  finally show ?thesis .
qed

lemma build_scores_distinct: "distinct (map fst (build_scores b word_freq sentences))"
  unfolding build_scores_def by (rule score_fold_distinct) simp

text \<open>The selection: distinct keys, as many as asked for when there are enough.\<close>

lemma nlargest_distinct: "distinct (map fst d) \<Longrightarrow> distinct (nlargest n d)"
proof -
  assume d: "distinct (map fst d)"
  then have "distinct (map fst (sort_key (\<lambda>(k, v). - v) d))"
    by (simp add: distinct_map)
  then show ?thesis
    unfolding nlargest_def take_map [symmetric] by (rule distinct_take)
qed

lemma nlargest_subset: "set (nlargest n d) \<subseteq> fst ` set d"
proof -
  have "set (take (nat n) (sort_key (\<lambda>(k, v). - v) d)) \<subseteq> set d"
    using set_take_subset [of "nat n" "sort_key (\<lambda>(k, v). - v) d"] by simp
  then show ?thesis unfolding nlargest_def by auto
qed

lemma nlargest_length: "length (nlargest n d) = min (nat n) (length d)"
  by (simp add: nlargest_def min.commute)

lemma top_sentences_facts:
  "distinct (top_sentences b sentences n) \<and>
   set (top_sentences b sentences n) \<subseteq> {s \<in> set sentences. has_qualifying_token b s} \<and>
   length (top_sentences b sentences n) =
     min (nat n) (card {s \<in> set sentences. has_qualifying_token b s})"
proof -
  let ?d = "build_scores b (build_word_freq b sentences) sentences"
  have dk: "distinct (map fst ?d)" by (rule build_scores_distinct)
  have "length ?d = length (map fst ?d)" by simp
  also have "\<dots> = card (set (map fst ?d))" using dk by (simp only: distinct_card)
  also have "set (map fst ?d) = {s \<in> set sentences. has_qualifying_token b s}"
    using build_scores_keys [of b sentences] by simp
  finally have len: "length ?d = card {s \<in> set sentences. has_qualifying_token b s}" .
  show ?thesis
    unfolding top_sentences_def
    using nlargest_distinct [OF dk, of n] nlargest_subset [of n ?d] nlargest_length [of n ?d]
      build_scores_keys [of b sentences] len
    by simp
qed

lemma card_summary_sentences:
  "card (set (summary_sentences b sentences n)) =
     min (nat n) (card {s \<in> set sentences. has_qualifying_token b s})"
proof -
  have "set (summary_sentences b sentences n) = set (top_sentences b sentences n)"
    using top_sentences_facts [of b sentences n] by (auto simp: summary_sentences_def)
  then show ?thesis
    using top_sentences_facts [of b sentences n] by (simp add: distinct_card)
qed

text \<open>Every occurrence of a selected text is emitted, and the selected texts score highest.\<close>

lemma summary_sentences_all_occurrences:
  "summary_sentences b sentences n =
     filter (\<lambda>s. s \<in> set (summary_sentences b sentences n)) sentences"
proof -
  have "set (summary_sentences b sentences n) = set (top_sentences b sentences n)"
    using top_sentences_facts [of b sentences n] by (auto simp: summary_sentences_def)
  then show ?thesis by (simp add: summary_sentences_def)
qed

lemma sorted_take_drop:
  assumes "sorted (map f xs)" "x \<in> set (take k xs)" "y \<in> set (drop k xs)"
  shows "f x \<le> f y"
proof -
  have "sorted (map f (take k xs) @ map f (drop k xs))"
    using assms(1) by (simp flip: map_append)
  then show ?thesis using assms(2,3) by (auto simp: sorted_append)
qed

lemma nlargest_highest:
  assumes "distinct (map fst d)" "(t, vt) \<in> set d" "(u, vu) \<in> set d"
    and "t \<in> set (nlargest n d)" "u \<notin> set (nlargest n d)"
  shows "vu \<le> vt"
proof -
  let ?k = "\<lambda>(k, v). - (v::rat)"
  let ?xs = "sort_key ?k d"
  have dx: "distinct (map fst ?xs)" using assms(1) by (simp add: distinct_map)
  have inj: "inj_on fst (set d)" using assms(1) by (simp add: distinct_map)
  obtain p where p: "p \<in> set (take (nat n) ?xs)" "fst p = t"
    using assms(4) by (auto simp: nlargest_def)
  then have "p \<in> set d" using in_set_takeD [of p "nat n" ?xs] by simp
  then have pt: "p = (t, vt)"
    using inj_onD [OF inj, of p "(t, vt)"] assms(2) p(2) by simp
  have "(u, vu) \<in> set ?xs" using assms(3) by simp
  then have "(u, vu) \<in> set (take (nat n) ?xs) \<or> (u, vu) \<in> set (drop (nat n) ?xs)"
    using set_append [of "take (nat n) ?xs" "drop (nat n) ?xs"] by (simp only: append_take_drop_id) blast
  moreover have "(u, vu) \<notin> set (take (nat n) ?xs)"
    using assms(5) by (force simp: nlargest_def)
  ultimately have ud: "(u, vu) \<in> set (drop (nat n) ?xs)" by blast
  have "sorted (map ?k ?xs)" by (rule sorted_sort_key)
  then have "?k (t, vt) \<le> ?k (u, vu)"
    using p(1) ud unfolding pt by (rule sorted_take_drop)
  then show ?thesis by simp
qed

lemma summary_sentences_highest:
  assumes "t \<in> set (summary_sentences b sentences n)"
    and "u \<notin> set (summary_sentences b sentences n)"
    and "map_of (build_scores b (build_word_freq b sentences) sentences) t = Some vt"
    and "map_of (build_scores b (build_word_freq b sentences) sentences) u = Some vu"
  shows "vu \<le> vt"
proof -
  let ?d = "build_scores b (build_word_freq b sentences) sentences"
  have dk: "distinct (map fst ?d)" by (rule build_scores_distinct)
  have tin: "(t, vt) \<in> set ?d" and uin: "(u, vu) \<in> set ?d"
    using assms(3,4) by (auto dest: map_of_SomeD)
  have tt: "t \<in> set (nlargest n ?d)"
    using assms(1) by (simp add: summary_sentences_def top_sentences_def)
  have usent: "u \<in> set sentences"
    using uin build_scores_keys [of b sentences] by force
  have uu: "u \<notin> set (nlargest n ?d)"
    using assms(2) usent by (simp add: summary_sentences_def top_sentences_def)
  show ?thesis using dk tin uin tt uu by (rule nlargest_highest)
qed

lemma extractive_on_str:
  "extractive_summarize b (PyStr text) n =
     (if int (length (tokenize_sentences b (clean_text text))) \<le> n
      then str_join (tokenize_sentences b (clean_text text))
      else str_join (summary_sentences b (tokenize_sentences b (clean_text text)) n))"
  by (simp add: extractive_summarize_def extractive_body_def clean_text_py_def Let_def)

section \<open>Evaluation on the concrete documents\<close>

text \<open>The stages of the extractive summarizer on \<open>cats_doc\<close>.\<close>

lemma cats_tokenized: "tokenize_sentences simple_mode (clean_text cats_doc) = cats_sentences"
  by code_simp

lemma cats_word_freq:
  "build_word_freq simple_mode cats_sentences =
     [(''cats'', 2), (''chase'', 2), (''mice'', 2), (''dogs'', 1), (''home'', 1), (''eat'', 1),
      (''cheese'', 1)]"
  by code_simp

lemma cats_scores:
  "build_scores simple_mode
     [(''cats'', 2), (''chase'', 2), (''mice'', 2), (''dogs'', 1), (''home'', 1), (''eat'', 1),
      (''cheese'', 1)] cats_sentences =
   [(''Cats chase mice!'', 5404319552844595 / 2251799813685248),
    (''Dogs chase cats  home.'', 3 / 2),
    (''Mice eat cheese.'', 6004799503160661 / 4503599627370496)]"
  by code_simp

lemma cats_top: "top_sentences simple_mode cats_sentences 2 = [''Cats chase mice!'', ''Dogs chase cats  home.'']"
  unfolding top_sentences_def cats_word_freq cats_scores by code_simp

lemma cats_summary:
  "summary_sentences simple_mode cats_sentences 2 = [''Cats chase mice!'', ''Dogs chase cats  home.'']"
  unfolding summary_sentences_def cats_top by code_simp

lemma cats_qualifying:
  "filter (has_qualifying_token simple_mode) cats_sentences = cats_sentences"
  by code_simp

text \<open>
  The stages of the budgeted summarizer on \<open>nato_doc\<close> and on \<open>cats_doc\<close>, and the
  80 percent thresholds for three targets.
\<close>

lemma nato_clean: "clean_text nato_doc = nato_doc"
  by code_simp

lemma nato_words: "length (str_split nato_doc) = 26"
  by code_simp

lemma nato_tokenized: "tokenize_sentences simple_mode nato_doc = [nato1, nato2, nato3]"
  by code_simp

lemma nato_important:
  "important_words simple_mode nato_doc =
     [''alpha'', ''bravo'', ''charlie'', ''delta'', ''echo'', ''foxtrot'', ''golf'', ''hotel'',
      ''india'', ''juliet'', ''kilo'', ''lima'', ''mike'', ''november'', ''oscar'', ''papa'',
      ''quebec'', ''romeo'', ''sierra'', ''tango'', ''uniform'', ''victor'', ''whiskey'', ''xray'']"
  by code_simp

lemma nato_scored_eval:
  "scored_sentences simple_mode nato_doc [nato1, nato2, nato3] = nato_scored"
  unfolding scored_sentences_def nato_important by code_simp

lemma nato_accumulate_20: "accumulate 20 nato_scored [] 0 = [nato1, nato3]"
  by code_simp

lemma nato_accumulate_11:
  "accumulate 11 nato_scored [] 0 = [''Alpha bravo charlie delta echo foxtrot golf hotel india juliet...'']"
  by code_simp

lemma nato_summary_20:
  "simple_abstractive_summarize simple_mode (PyStr nato_doc) 20 =
     ''Alpha bravo charlie delta echo foxtrot golf hotel india juliet kilo lima. Uniform victor whiskey xray of.''"
  unfolding simple_abstractive_on_str nato_clean nato_words nato_tokenized nato_scored_eval
    nato_accumulate_20
  by (simp add: nato1_def nato3_def)

lemma nato_summary_11:
  "simple_abstractive_summarize simple_mode (PyStr nato_doc) 11 =
     ''Alpha bravo charlie delta echo foxtrot golf hotel india juliet...''"
  unfolding simple_abstractive_on_str nato_clean nato_words nato_tokenized nato_scored_eval
    nato_accumulate_11
  by simp

lemma cats_clean_words: "length (str_split (clean_text cats_doc)) = 10"
  by code_simp

lemma cats_scored:
  "scored_sentences simple_mode (clean_text cats_doc) (tokenize_sentences simple_mode (clean_text cats_doc)) = []"
  unfolding cats_tokenized by code_simp

lemma threshold_15: "float_mul (float_of_int 15) (float_literal (8 / 10)) = 12"
  by code_simp

lemma threshold_11: "float_mul (float_of_int 11) (float_literal (8 / 10)) = 2476979795053773 / 281474976710656"
  by code_simp

lemma threshold_20: "float_mul (float_of_int 20) (float_literal (8 / 10)) = 16"
  by code_simp

text \<open>
  The two window thresholds for ten sentences.
\<close>

lemma threshold_first_10: "float_mul (float_of_int (int 10)) (float_literal (3 / 10)) = 3"
  by code_simp

lemma threshold_last_10: "float_mul (float_of_int (int 10)) (float_literal (7 / 10)) = 7"
  by code_simp

text \<open>
  The stages of the extractive summarizer on \<open>quiet_doc\<close> and on \<open>twin_doc\<close>.
\<close>

lemma quiet_tokenized: "tokenize_sentences simple_mode (clean_text quiet_doc) = quiet_sentences"
  by code_simp

lemma quiet_word_freq:
  "build_word_freq simple_mode quiet_sentences =
     [(''cats'', 1), (''chase'', 1), (''mice'', 1), (''today'', 1)]"
  by code_simp

lemma quiet_scores:
  "build_scores simple_mode [(''cats'', 1), (''chase'', 1), (''mice'', 1), (''today'', 1)]
     quiet_sentences =
   [(''Cats chase mice today.'', 5404319552844595 / 4503599627370496)]"
  by code_simp

lemma quiet_top: "top_sentences simple_mode quiet_sentences 2 = [''Cats chase mice today.'']"
  unfolding top_sentences_def quiet_word_freq quiet_scores by code_simp

lemma quiet_summary: "summary_sentences simple_mode quiet_sentences 2 = [''Cats chase mice today.'']"
  unfolding summary_sentences_def quiet_top by code_simp

lemma twin_tokenized: "tokenize_sentences simple_mode (clean_text twin_doc) = twin_sentences"
  by code_simp

lemma twin_word_freq:
  "build_word_freq simple_mode twin_sentences =
     [(''cats'', 3), (''chase'', 3), (''mice'', 2), (''dogs'', 1)]"
  by code_simp

lemma twin_scores:
  "build_scores simple_mode [(''cats'', 3), (''chase'', 3), (''mice'', 2), (''dogs'', 1)]
     twin_sentences =
   [(''Cats chase mice.'', 6004799503160661 / 2251799813685248),
    (''Dogs chase cats.'', 5254199565265579 / 2251799813685248)]"
  by code_simp

lemma twin_top:
  "top_sentences simple_mode twin_sentences 2 = [''Cats chase mice.'', ''Dogs chase cats.'']"
  unfolding top_sentences_def twin_word_freq twin_scores by code_simp

lemma twin_summary: "summary_sentences simple_mode twin_sentences 2 = twin_sentences"
  unfolding summary_sentences_def twin_top by code_simp

section \<open>Claims\<close>

text \<open>
  C1 (budget respected): when the budgeted summarizer does not return the whole text, the
  number of whitespace-separated words of its result is at most \<open>target_length\<close>.  The
  ellipsis is glued to the last word of a truncated sentence and adds no word, so the bound
  holds with no overhead at all.  When no sentence qualifies the result is the empty string.
\<close>

theorem budget_respected:
  assumes "1 \<le> target_length"
    and "\<not> int (length (str_split (clean_text text))) \<le> target_length"
  shows "int (length (str_split (simple_abstractive_summarize b (PyStr text) target_length)))
           \<le> target_length \<and>
         (scored_sentences b (clean_text text) (tokenize_sentences b (clean_text text)) = [] \<longrightarrow>
            simple_abstractive_summarize b (PyStr text) target_length = [])"
proof -
  let ?xs = "scored_sentences b (clean_text text) (tokenize_sentences b (clean_text text))"
  have r: "simple_abstractive_summarize b (PyStr text) target_length =
      str_join (accumulate target_length ?xs [] 0)"
    using assms(2)
    by (simp add: simple_abstractive_summarize_def simple_abstractive_body_def clean_text_py_def Let_def)
  have "int (word_count (accumulate target_length ?xs [] 0)) \<le> target_length"
    using scored_sentences_lengths assms(1)
    by (intro accumulate_within_budget) (simp_all add: word_count_def str_split_empty)
  then show ?thesis
    unfolding r by (simp add: word_count_def)
qed

theorem budget_respected_witness:
  "\<not> int (length (str_split (clean_text nato_doc))) \<le> 20 \<and>
   simple_abstractive_summarize simple_mode (PyStr nato_doc) 20 =
     ''Alpha bravo charlie delta echo foxtrot golf hotel india juliet kilo lima. Uniform victor whiskey xray of.'' \<and>
   int (length (str_split (simple_abstractive_summarize simple_mode (PyStr nato_doc) 20))) \<le> 20 \<and>
   \<not> int (length (str_split (clean_text nato_doc))) \<le> 11 \<and>
   simple_abstractive_summarize simple_mode (PyStr nato_doc) 11 =
     ''Alpha bravo charlie delta echo foxtrot golf hotel india juliet...'' \<and>
   int (length (str_split (simple_abstractive_summarize simple_mode (PyStr nato_doc) 11))) \<le> 11 \<and>
   \<not> int (length (str_split (clean_text cats_doc))) \<le> 5 \<and>
   scored_sentences simple_mode (clean_text cats_doc)
     (tokenize_sentences simple_mode (clean_text cats_doc)) = [] \<and>
   simple_abstractive_summarize simple_mode (PyStr cats_doc) 5 = []"
  using budget_respected [of 20 nato_doc simple_mode] budget_respected [of 11 nato_doc simple_mode]
    budget_respected [of 5 cats_doc simple_mode]
  by (simp add: nato_clean nato_words nato_summary_20 nato_summary_11 cats_clean_words cats_scored)

text \<open>
  C2 (order preservation): the output of the extractive summarizer is the join of a list
  of sentences that is a subsequence of the tokenized document, so the sentences appear in
  document order, whatever their scores.
\<close>

theorem extractive_keeps_document_order:
  "extractive_summarize b (PyStr text) num_sentences =
     str_join (let sentences = tokenize_sentences b (clean_text text) in
               if int (length sentences) \<le> num_sentences then sentences
               else summary_sentences b sentences num_sentences) \<and>
   subseq (let sentences = tokenize_sentences b (clean_text text) in
           if int (length sentences) \<le> num_sentences then sentences
           else summary_sentences b sentences num_sentences)
          (tokenize_sentences b (clean_text text))"
  by (simp add: extractive_summarize_def extractive_body_def clean_text_py_def Let_def
      summary_sentences_def)

theorem extractive_keeps_document_order_witness:
  "extractive_summarize simple_mode (PyStr cats_doc) 2 = ''Cats chase mice! Dogs chase cats  home.'' \<and>
   subseq [''Cats chase mice!'', ''Dogs chase cats  home.'']
     [''Cats chase mice!'', ''Dogs chase cats  home.'', ''Mice eat cheese.'']"
  using extractive_keeps_document_order [of simple_mode cats_doc 2]
  unfolding cats_tokenized Let_def
  by (simp add: cats_sentences_def cats_summary [unfolded cats_sentences_def])

text \<open>
  C3 (positional multiplier): the bonus is the literal 1.2 in the first window
  (\<open>i < n * 0.3\<close>), the literal 1.1 in the last window (\<open>i > n * 0.7\<close>) and 1 elsewhere,
  and it equals the product of the two factors taken independently.  Rounding is
  monotone, so \<open>n * 0.3\<close> never exceeds \<open>n * 0.7\<close> and no index lies in both windows:
  the cumulative reading and the source's \<open>if\<close>/\<open>elif\<close> give the same number everywhere.
\<close>

theorem position_bonus_cumulative:
  "position_bonus n i = spec_cumulative_bonus n i \<and>
   position_bonus n i =
     (if in_first_30_percent n i then float_literal (12 / 10)
      else if in_last_30_percent n i then float_literal (11 / 10) else 1)"
  using windows_disjoint [of n i]
  by (auto simp: position_bonus_def spec_cumulative_bonus_def in_first_30_percent_def
      in_last_30_percent_def)

theorem position_bonus_cumulative_witness:
  "in_first_30_percent 10 2 \<and> position_bonus 10 2 = float_literal (12 / 10) \<and>
   spec_cumulative_bonus 10 2 = float_literal (12 / 10) \<and>
   in_last_30_percent 10 8 \<and> position_bonus 10 8 = float_literal (11 / 10) \<and>
   spec_cumulative_bonus 10 8 = float_literal (11 / 10) \<and>
   \<not> in_first_30_percent 10 3 \<and> \<not> in_last_30_percent 10 7 \<and>
   position_bonus 10 3 = 1 \<and> position_bonus 10 7 = 1 \<and> spec_cumulative_bonus 10 5 = 1"
proof -
  have f: "\<And>i. in_first_30_percent 10 i \<longleftrightarrow> i < 3"
    unfolding in_first_30_percent_def threshold_first_10
    by (metis of_nat_less_iff of_nat_numeral)
  have l: "\<And>i. in_last_30_percent 10 i \<longleftrightarrow> 7 < i"
    unfolding in_last_30_percent_def threshold_last_10
    by (metis of_nat_less_iff of_nat_numeral)
  show ?thesis
    using position_bonus_cumulative [of 10 2] position_bonus_cumulative [of 10 8]
      position_bonus_cumulative [of 10 3] position_bonus_cumulative [of 10 7]
      position_bonus_cumulative [of 10 5]
    by (simp add: f l)
qed

text \<open>
  C4 (normalizer idempotence): the claim is that \<open>clean_text (clean_text x) = clean_text x\<close>
  for every string.  The code collapses whitespace before it deletes the special
  characters, so deleting a character that stood between two blanks leaves a double blank,
  which a second pass collapses.  On \<open>a @ b\<close> the first pass gives \<open>a\<close>, two blanks,
  \<open>b\<close>, and the second pass gives \<open>a b\<close>.  Where nothing is deleted the property
  holds (\<open>clean_text_idempotent_on_kept\<close>).
\<close>

theorem clean_text_not_idempotent:
  "clean_text ''a @ b'' = ''a  b'' \<and> clean_text (clean_text ''a @ b'') = ''a b'' \<and>
   clean_text (clean_text ''a @ b'') \<noteq> clean_text ''a @ b''"
  by (simp add: clean_text_def str_strip_def remove_special_def collapse_whitespace_def
      keep_char_def is_space_def is_word_def is_alnum_def)

text \<open>
  C5 (stop without truncation): the claim is that accumulation stops as soon as a sentence
  overflows and is not truncated.  With a budget of 20 words and candidates of 12, 9 and 5
  words in score order, the second overflows while the total stands at 12, which is below
  80 percent, and 8 words remain: the loop neither truncates nor stops, and appends the
  third sentence.
\<close>

theorem accumulation_continues_counterexample:
  "scored_sentences simple_mode (clean_text nato_doc)
     (tokenize_sentences simple_mode (clean_text nato_doc)) = nato_scored \<and>
   \<not> int (12 + 9) \<le> (20::int) \<and> 20 - int 12 < 10 \<and>
   accumulate 20 [(2001599834386887 / 2251799813685248, nato2, 9),
                  (3602879701896397 / 4503599627370496, nato3, 5)] [nato1] 12 = [nato1, nato3] \<and>
   accumulate 20 [(2001599834386887 / 2251799813685248, nato2, 9),
                  (3602879701896397 / 4503599627370496, nato3, 5)] [nato1] 12 \<noteq> [nato1] \<and>
   simple_abstractive_summarize simple_mode (PyStr nato_doc) 20 =
     ''Alpha bravo charlie delta echo foxtrot golf hotel india juliet kilo lima. Uniform victor whiskey xray of.''"
proof -
  have a: "accumulate 20 [(2001599834386887 / 2251799813685248, nato2, 9),
                  (3602879701896397 / 4503599627370496, nato3, 5)] [nato1] 12 = [nato1, nato3]"
    by code_simp
  have b: "scored_sentences simple_mode (clean_text nato_doc)
     (tokenize_sentences simple_mode (clean_text nato_doc)) = nato_scored"
    by (simp add: nato_clean nato_tokenized nato_scored_eval)
  show ?thesis
    unfolding a b nato_summary_20 by simp
qed

text \<open>
  C5 as amended: when the next sentence in score order would overflow the budget, the loop
  stops at once if the running total is not below 80 percent of the target; it appends the
  truncated sentence and stops if the total is below 80 percent and at least 10 words
  remain; and if the total is below 80 percent but fewer than 10 words remain, it skips
  that sentence only and goes on with the next one.
\<close>

theorem overflow_behaviour:
  assumes "\<not> int (tot + len) \<le> target_length"
  shows
    "(\<not> of_nat tot < float_mul (float_of_int target_length) (float_literal (8 / 10)) \<longrightarrow>
        accumulate target_length ((score, sentence, len) # rest) parts tot = parts) \<and>
     (of_nat tot < float_mul (float_of_int target_length) (float_literal (8 / 10)) \<and>
      10 \<le> target_length - int tot \<longrightarrow>
        accumulate target_length ((score, sentence, len) # rest) parts tot =
          parts @ [str_join (take (nat (target_length - int tot - 1)) (str_split sentence)) @ ''...'']) \<and>
     (of_nat tot < float_mul (float_of_int target_length) (float_literal (8 / 10)) \<and>
      target_length - int tot < 10 \<longrightarrow>
        accumulate target_length ((score, sentence, len) # rest) parts tot =
          accumulate target_length rest parts tot)"
  using assms by (simp add: Let_def)

theorem overflow_behaviour_witness:
  "\<not> int (12 + 9) \<le> (15::int) \<and>
   \<not> of_nat 12 < float_mul (float_of_int 15) (float_literal (8 / 10)) \<and>
   accumulate 15 ((8 / 9, nato2, 9) # [(4 / 5, nato3, 5)]) [nato1] 12 = [nato1] \<and>
   \<not> int (0 + 12) \<le> (11::int) \<and>
   of_nat 0 < float_mul (float_of_int 11) (float_literal (8 / 10)) \<and> (10::int) \<le> 11 - int 0 \<and>
   accumulate 11 ((1, nato1, 12) # [(4 / 5, nato3, 5)]) [] 0 =
     [] @ [str_join (take (nat (11 - int 0 - 1)) (str_split nato1)) @ ''...''] \<and>
   \<not> int (12 + 9) \<le> (20::int) \<and>
   of_nat 12 < float_mul (float_of_int 20) (float_literal (8 / 10)) \<and> 20 - int 12 < (10::int) \<and>
   accumulate 20 ((8 / 9, nato2, 9) # [(4 / 5, nato3, 5)]) [nato1] 12 =
     accumulate 20 [(4 / 5, nato3, 5)] [nato1] 12"
  using overflow_behaviour [of 12 9 15 "8 / 9" nato2 "[(4 / 5, nato3, 5)]" "[nato1]"]
    overflow_behaviour [of 0 12 11 1 nato1 "[(4 / 5, nato3, 5)]" "[]"]
    overflow_behaviour [of 12 9 20 "8 / 9" nato2 "[(4 / 5, nato3, 5)]" "[nato1]"]
  unfolding threshold_15 threshold_11 threshold_20
  by simp

text \<open>
  C6 (exactly \<open>sentence_count\<close> sentences): the claim is that a document with more
  sentences than requested yields exactly that many.  A sentence without a qualifying
  token gets no score and is never selected, so three sentences of which two consist of
  stopwords yield one sentence for a request of two; and the scores are keyed by sentence
  text while every occurrence of a selected text is emitted, so a repeated sentence yields
  three sentences for a request of two.
\<close>

theorem exactly_count_counterexample:
  "tokenize_sentences simple_mode (clean_text quiet_doc) =
     [''Cats chase mice today.'', ''It is what it is.'', ''They were here before.''] \<and>
   extractive_summarize simple_mode (PyStr quiet_doc) 2 = ''Cats chase mice today.'' \<and>
   summary_sentences simple_mode (tokenize_sentences simple_mode (clean_text quiet_doc)) 2 =
     [''Cats chase mice today.''] \<and>
   length (summary_sentences simple_mode (tokenize_sentences simple_mode (clean_text quiet_doc)) 2) \<noteq> 2 \<and>
   tokenize_sentences simple_mode (clean_text twin_doc) =
     [''Cats chase mice.'', ''Cats chase mice.'', ''Dogs chase cats.''] \<and>
   extractive_summarize simple_mode (PyStr twin_doc) 2 =
     ''Cats chase mice. Cats chase mice. Dogs chase cats.'' \<and>
   length (summary_sentences simple_mode (tokenize_sentences simple_mode (clean_text twin_doc)) 2) \<noteq> 2"
  unfolding extractive_on_str quiet_tokenized quiet_summary twin_tokenized twin_summary
  by (simp add: quiet_sentences_def twin_sentences_def)

text \<open>
  C6 as amended: for a document with more sentences than requested, the result is the
  join of a subsequence of the sentences (ascending original position), every one of them
  with a qualifying token, and the number of distinct sentence texts in it is the smaller
  of \<open>sentence_count\<close> and the number of distinct texts with a qualifying token.  Every
  occurrence of a selected text is returned: the result is the list of all sentences whose
  text is among the selected ones.  No scored text left out has a higher score than a
  selected one.  The result has exactly \<open>sentence_count\<close> sentences when the sentences
  are pairwise distinct and at least \<open>sentence_count\<close> of them have a qualifying token.
\<close>

theorem extractive_selection:
  assumes "num_sentences < int (length (tokenize_sentences b (clean_text text)))"
  shows
    "extractive_summarize b (PyStr text) num_sentences =
       str_join (summary_sentences b (tokenize_sentences b (clean_text text)) num_sentences) \<and>
     subseq (summary_sentences b (tokenize_sentences b (clean_text text)) num_sentences)
       (tokenize_sentences b (clean_text text)) \<and>
     list_all (has_qualifying_token b)
       (summary_sentences b (tokenize_sentences b (clean_text text)) num_sentences) \<and>
     card (set (summary_sentences b (tokenize_sentences b (clean_text text)) num_sentences)) =
       min (nat num_sentences)
         (card {s \<in> set (tokenize_sentences b (clean_text text)). has_qualifying_token b s}) \<and>
     (distinct (tokenize_sentences b (clean_text text)) \<and>
      nat num_sentences \<le> length (filter (has_qualifying_token b) (tokenize_sentences b (clean_text text)))
      \<longrightarrow> length (summary_sentences b (tokenize_sentences b (clean_text text)) num_sentences) =
            nat num_sentences) \<and>
     summary_sentences b (tokenize_sentences b (clean_text text)) num_sentences =
       filter (\<lambda>s. s \<in> set (summary_sentences b (tokenize_sentences b (clean_text text))
                                 num_sentences))
         (tokenize_sentences b (clean_text text)) \<and>
     (\<forall>t u vt vu.
        t \<in> set (summary_sentences b (tokenize_sentences b (clean_text text)) num_sentences) \<and>
        u \<notin> set (summary_sentences b (tokenize_sentences b (clean_text text)) num_sentences) \<and>
        map_of (build_scores b (build_word_freq b (tokenize_sentences b (clean_text text)))
                  (tokenize_sentences b (clean_text text))) t = Some vt \<and>
        map_of (build_scores b (build_word_freq b (tokenize_sentences b (clean_text text)))
                  (tokenize_sentences b (clean_text text))) u = Some vu
        \<longrightarrow> vu \<le> vt)"
proof -
  let ?S = "tokenize_sentences b (clean_text text)"
  have a: "extractive_summarize b (PyStr text) num_sentences =
       str_join (summary_sentences b ?S num_sentences)"
    using assms
    by (simp add: extractive_summarize_def extractive_body_def clean_text_py_def Let_def)
  have o: "subseq (summary_sentences b ?S num_sentences) ?S"
    by (simp add: summary_sentences_def)
  have q: "list_all (has_qualifying_token b) (summary_sentences b ?S num_sentences)"
    using top_sentences_facts [of b ?S num_sentences]
    by (auto simp: summary_sentences_def list_all_iff)
  have c: "card (set (summary_sentences b ?S num_sentences)) =
       min (nat num_sentences) (card {s \<in> set ?S. has_qualifying_token b s})"
    by (rule card_summary_sentences)
  have l: "length (summary_sentences b ?S num_sentences) = nat num_sentences"
    if d: "distinct ?S" and e: "nat num_sentences \<le> length (filter (has_qualifying_token b) ?S)"
  proof -
    have "distinct (summary_sentences b ?S num_sentences)"
      using d by (simp add: summary_sentences_def)
    then have "length (summary_sentences b ?S num_sentences) =
        card (set (summary_sentences b ?S num_sentences))"
      by (simp add: distinct_card)
    moreover have "length (filter (has_qualifying_token b) ?S) =
        card {s \<in> set ?S. has_qualifying_token b s}"
      using d distinct_card [of "filter (has_qualifying_token b) ?S"] by simp
    ultimately show ?thesis using c e by simp
  qed
  have f: "summary_sentences b ?S num_sentences =
      filter (\<lambda>s. s \<in> set (summary_sentences b ?S num_sentences)) ?S"
    by (rule summary_sentences_all_occurrences)
  have h: "vu \<le> vt"
    if "t \<in> set (summary_sentences b ?S num_sentences)"
      and "u \<notin> set (summary_sentences b ?S num_sentences)"
      and "map_of (build_scores b (build_word_freq b ?S) ?S) t = Some vt"
      and "map_of (build_scores b (build_word_freq b ?S) ?S) u = Some vu"
    for t u vt vu
    using that by (rule summary_sentences_highest)
  show ?thesis
  proof (intro conjI allI impI)
    show "extractive_summarize b (PyStr text) num_sentences =
       str_join (summary_sentences b ?S num_sentences)" by (rule a)
    show "subseq (summary_sentences b ?S num_sentences) ?S" by (rule o)
    show "list_all (has_qualifying_token b) (summary_sentences b ?S num_sentences)" by (rule q)
    show "card (set (summary_sentences b ?S num_sentences)) =
       min (nat num_sentences) (card {s \<in> set ?S. has_qualifying_token b s})" by (rule c)
    show "length (summary_sentences b ?S num_sentences) = nat num_sentences"
      if "distinct ?S \<and> nat num_sentences \<le> length (filter (has_qualifying_token b) ?S)"
      using that l by blast
    show "summary_sentences b ?S num_sentences =
      filter (\<lambda>s. s \<in> set (summary_sentences b ?S num_sentences)) ?S" by (rule f)
    show "vu \<le> vt"
      if "t \<in> set (summary_sentences b ?S num_sentences) \<and>
          u \<notin> set (summary_sentences b ?S num_sentences) \<and>
          map_of (build_scores b (build_word_freq b ?S) ?S) t = Some vt \<and>
          map_of (build_scores b (build_word_freq b ?S) ?S) u = Some vu"
      for t u vt vu
      using that h by blast
  qed
qed

theorem extractive_selection_witness:
  "2 < int (length (tokenize_sentences simple_mode (clean_text cats_doc))) \<and>
   distinct (tokenize_sentences simple_mode (clean_text cats_doc)) \<and>
   nat 2 \<le> length (filter (has_qualifying_token simple_mode)
                      (tokenize_sentences simple_mode (clean_text cats_doc))) \<and>
   length (summary_sentences simple_mode (tokenize_sentences simple_mode (clean_text cats_doc)) 2) = 2 \<and>
   extractive_summarize simple_mode (PyStr cats_doc) 2 = ''Cats chase mice! Dogs chase cats  home.'' \<and>
   2 < int (length (tokenize_sentences simple_mode (clean_text twin_doc))) \<and>
   summary_sentences simple_mode (tokenize_sentences simple_mode (clean_text twin_doc)) 2 =
     [''Cats chase mice.'', ''Cats chase mice.'', ''Dogs chase cats.''] \<and>
   filter (\<lambda>s. s \<in> set (summary_sentences simple_mode
                              (tokenize_sentences simple_mode (clean_text twin_doc)) 2))
     (tokenize_sentences simple_mode (clean_text twin_doc)) =
     [''Cats chase mice.'', ''Cats chase mice.'', ''Dogs chase cats.''] \<and>
   extractive_summarize simple_mode (PyStr twin_doc) 2 =
     ''Cats chase mice. Cats chase mice. Dogs chase cats.''"
proof -
  let ?C = "tokenize_sentences simple_mode (clean_text cats_doc)"
  let ?T = "tokenize_sentences simple_mode (clean_text twin_doc)"
  have lc: "2 < int (length ?C)"
    unfolding cats_tokenized by (simp add: cats_sentences_def)
  have dc: "distinct ?C"
    unfolding cats_tokenized by (simp add: cats_sentences_def)
  have qc: "nat 2 \<le> length (filter (has_qualifying_token simple_mode) ?C)"
    unfolding cats_tokenized cats_qualifying by (simp add: cats_sentences_def)
  have sc: "summary_sentences simple_mode ?C 2 = [''Cats chase mice!'', ''Dogs chase cats  home.'']"
    unfolding cats_tokenized by (rule cats_summary)
  have "distinct ?C \<and> nat 2 \<le> length (filter (has_qualifying_token simple_mode) ?C)
      \<longrightarrow> length (summary_sentences simple_mode ?C 2) = nat 2"
    using extractive_selection [OF lc] by blast
  then have nc: "length (summary_sentences simple_mode ?C 2) = 2"
    using dc qc by simp
  have "extractive_summarize simple_mode (PyStr cats_doc) 2 =
      str_join (summary_sentences simple_mode ?C 2)"
    using extractive_selection [OF lc] by blast
  then have ec: "extractive_summarize simple_mode (PyStr cats_doc) 2 =
      ''Cats chase mice! Dogs chase cats  home.''"
    unfolding sc by simp
  have lt: "2 < int (length ?T)"
    unfolding twin_tokenized by (simp add: twin_sentences_def)
  have st: "summary_sentences simple_mode ?T 2 =
      [''Cats chase mice.'', ''Cats chase mice.'', ''Dogs chase cats.'']"
    unfolding twin_tokenized twin_summary by (simp add: twin_sentences_def)
  have "extractive_summarize simple_mode (PyStr twin_doc) 2 =
      str_join (summary_sentences simple_mode ?T 2)"
    using extractive_selection [OF lt] by blast
  then have et: "extractive_summarize simple_mode (PyStr twin_doc) 2 =
      ''Cats chase mice. Cats chase mice. Dogs chase cats.''"
    unfolding st by simp
  have g: "summary_sentences simple_mode ?T 2 =
      filter (\<lambda>s. s \<in> set (summary_sentences simple_mode ?T 2)) ?T"
    using extractive_selection [OF lt] by blast
  have ft: "filter (\<lambda>s. s \<in> set (summary_sentences simple_mode ?T 2)) ?T =
      [''Cats chase mice.'', ''Cats chase mice.'', ''Dogs chase cats.'']"
    by (rule trans [OF g [symmetric] st])
  show ?thesis using lc dc qc nc ec lt st ft et by blast
qed

text \<open>
  C7 (soft failure): when the body of either summarizer raises, the handler returns
  \<open>Error during summarization: \<close> followed by the description of the exception.  Both
  functions return a string on every input; nothing reaches the caller as an exception.
  The body raises exactly when \<open>text\<close> is not a string.
\<close>

theorem failure_becomes_error_string:
  "(extractive_body b text num_sentences = Inl e \<longrightarrow>
      extractive_summarize b text num_sentences = ''Error during summarization: '' @ str_exn e) \<and>
   (simple_abstractive_body b text target_length = Inl e' \<longrightarrow>
      simple_abstractive_summarize b text target_length = ''Error during summarization: '' @ str_exn e')"
  by (simp add: extractive_summarize_def simple_abstractive_summarize_def)

theorem failure_becomes_error_string_witness:
  "extractive_body simple_mode PyNone 5 =
     Inl (TypeError (''expected string or bytes-like object, got '' @ [CHR 0x27] @ ''NoneType'' @ [CHR 0x27])) \<and>
   extractive_summarize simple_mode PyNone 5 =
     ''Error during summarization: expected string or bytes-like object, got '' @ [CHR 0x27] @ ''NoneType'' @ [CHR 0x27] \<and>
   simple_abstractive_body simple_mode (PyInt 7) 200 =
     Inl (TypeError (''expected string or bytes-like object, got '' @ [CHR 0x27] @ ''int'' @ [CHR 0x27])) \<and>
   simple_abstractive_summarize simple_mode (PyInt 7) 200 =
     ''Error during summarization: expected string or bytes-like object, got '' @ [CHR 0x27] @ ''int'' @ [CHR 0x27]"
proof -
  have a: "extractive_body simple_mode PyNone 5 =
     Inl (TypeError (''expected string or bytes-like object, got '' @ [CHR 0x27] @ ''NoneType'' @ [CHR 0x27]))"
    by (simp add: extractive_body_def clean_text_py_def type_name_def)
  have b: "simple_abstractive_body simple_mode (PyInt 7) 200 =
     Inl (TypeError (''expected string or bytes-like object, got '' @ [CHR 0x27] @ ''int'' @ [CHR 0x27]))"
    by (simp add: simple_abstractive_body_def clean_text_py_def type_name_def)
  show ?thesis
    using a b failure_becomes_error_string [of simple_mode PyNone 5 _ 200]
      failure_becomes_error_string [of simple_mode "PyInt 7" 5 _ 200]
    by simp
qed

text \<open>The body of either summarizer raises exactly when \<open>text\<close> is not a string.\<close>

lemma extractive_body_fails_iff:
  "(\<exists>e. extractive_body b text n = Inl e) \<longleftrightarrow> (\<forall>s. text \<noteq> PyStr s)"
  by (cases "text") (auto simp: extractive_body_def clean_text_py_def Let_def)

lemma simple_abstractive_body_fails_iff:
  "(\<exists>e. simple_abstractive_body b text n = Inl e) \<longleftrightarrow> (\<forall>s. text \<noteq> PyStr s)"
  by (cases "text") (auto simp: simple_abstractive_body_def clean_text_py_def Let_def)

text \<open>
  C8 (simple word tokenization): the claim is that the result is exactly the maximal runs
  of two or more alphabetic characters, lower-cased.  The pattern asks for a word boundary
  on both sides, so the run \<open>ab\<close> of \<open>ab1\<close> is not returned, although it is a
  maximal run of two letters; and a word glued by punctuation is not dropped:
  \<open>well-known\<close> gives \<open>well\<close> and \<open>known\<close>.
\<close>

theorem spec_letter_runs_counterexample:
  "simple_word_tokenize ''ab1'' = [] \<and> spec_letter_runs ''ab1'' = [''ab''] \<and>
   simple_word_tokenize ''ab1'' \<noteq> spec_letter_runs ''ab1'' \<and>
   simple_word_tokenize ''well-known'' = [''well'', ''known'']"
proof -
  have a: "simple_word_tokenize ''ab1'' = []" by code_simp
  have b: "spec_letter_runs ''ab1'' = [''ab'']" by code_simp
  have c: "simple_word_tokenize ''well-known'' = [''well'', ''known'']" by code_simp
  show ?thesis unfolding a b c by simp
qed

text \<open>
  C8 as amended: the result is, in order, the maximal runs of word characters (letters,
  digits, underscore) of the lower-cased text that consist of two or more ASCII letters
  and nothing else.  A run of letters that touches a digit, an underscore or a non-ASCII
  letter is dropped as a whole; letters separated by punctuation are separate tokens.
\<close>

theorem simple_word_tokenize_letter_tokens:
  "simple_word_tokenize text = letter_tokens text"
  by (simp add: simple_word_tokenize_def letter_tokens_def find_words_runs)

theorem simple_word_tokenize_letter_tokens_witness:
  "simple_word_tokenize ''It#s 2 well-known x_y Cats, ab1 DOGS.'' = [''it'', ''well'', ''known'', ''cats'', ''dogs''] \<and>
   letter_tokens ''It#s 2 well-known x_y Cats, ab1 DOGS.'' = [''it'', ''well'', ''known'', ''cats'', ''dogs'']"
proof -
  have "letter_tokens ''It#s 2 well-known x_y Cats, ab1 DOGS.'' = [''it'', ''well'', ''known'', ''cats'', ''dogs'']"
    by code_simp
  then show ?thesis
    using simple_word_tokenize_letter_tokens [of "''It#s 2 well-known x_y Cats, ab1 DOGS.''"] by simp
qed

text \<open>
  C9 (stopword provider): the claim is that \<open>get_stopwords\<close> never fails and always
  returns a non-empty set.  It never fails, but when NLTK is available and its lookup
  returns, the result is the corpus as it came, with no test on it: a backend whose corpus
  is empty gives the empty set.
\<close>

theorem empty_corpus_counterexample:
  "NLTK_AVAILABLE empty_corpus_nltk \<and> stopwords_words empty_corpus_nltk = Some [] \<and>
   get_stopwords empty_corpus_nltk = {}"
  by (simp add: empty_corpus_nltk_def get_stopwords_def)

text \<open>
  C9 as amended: \<open>get_stopwords\<close> never fails.  It returns the built-in list, which is not
  empty, when NLTK is unavailable or its lookup raises, and exactly the corpus of NLTK when
  the lookup returns.  The result is empty only in the case of an available NLTK whose
  lookup returns an empty corpus.
\<close>

theorem get_stopwords_total:
  "(\<not> NLTK_AVAILABLE b \<or> stopwords_words b = None \<longrightarrow>
      get_stopwords b = set BASIC_STOPWORDS) \<and>
   (\<forall>ws. NLTK_AVAILABLE b \<and> stopwords_words b = Some ws \<longrightarrow> get_stopwords b = set ws) \<and>
   set BASIC_STOPWORDS \<noteq> {} \<and>
   (get_stopwords b = {} \<longleftrightarrow> NLTK_AVAILABLE b \<and> stopwords_words b = Some [])"
  by (auto simp: get_stopwords_def BASIC_STOPWORDS_def split: option.splits)

theorem get_stopwords_total_witness:
  "get_stopwords simple_mode = set BASIC_STOPWORDS \<and> get_stopwords simple_mode \<noteq> {} \<and>
   get_stopwords failing_nltk = set BASIC_STOPWORDS \<and> get_stopwords failing_nltk \<noteq> {} \<and>
   get_stopwords toy_nltk = set [''the'', ''of''] \<and> get_stopwords toy_nltk \<noteq> {} \<and>
   get_stopwords empty_corpus_nltk = {}"
  using get_stopwords_total [of simple_mode] get_stopwords_total [of failing_nltk]
    get_stopwords_total [of toy_nltk] get_stopwords_total [of empty_corpus_nltk]
  by (simp add: simple_mode_def failing_nltk_def toy_nltk_def empty_corpus_nltk_def)

text \<open>
  C10 (empty or whitespace-only input): both summarizers return the empty string, not an
  error text.  The extractive path leaves through the test on the number of sentences,
  the budgeted path through the test on the word count.  In simple mode and when the NLTK
  sentence tokenizer raises, the empty text has no sentences; for a returning NLTK
  tokenizer that is its behaviour on the empty text, assumed here.
\<close>

theorem empty_input_gives_empty_summary:
  assumes "list_all is_space s" and "1 \<le> num_sentences" and "1 \<le> target_length"
    and "\<And>ss. NLTK_AVAILABLE b \<Longrightarrow> sent_tokenize b [] = Some ss \<Longrightarrow> ss = []"
  shows "extractive_summarize b (PyStr s) num_sentences = [] \<and>
         simple_abstractive_summarize b (PyStr s) target_length = []"
proof -
  have c: "clean_text s = []" using assms(1) by (rule clean_text_all_space)
  have t: "tokenize_sentences b [] = []"
    using assms(4) by (auto simp: tokenize_sentences_def simple_sent_tokenize_empty split: option.splits)
  have "extractive_summarize b (PyStr s) num_sentences = []"
    using assms(2) by (simp add: extractive_summarize_def extractive_body_def clean_text_py_def c t)
  moreover have "simple_abstractive_summarize b (PyStr s) target_length = []"
    using assms(3)
    by (simp add: simple_abstractive_summarize_def simple_abstractive_body_def clean_text_py_def c
        str_split_empty)
  ultimately show ?thesis by simp
qed

theorem empty_input_gives_empty_summary_witness:
  "list_all is_space [CHR '' '', CHR 0x0A, CHR 0x09] \<and>
   extractive_summarize simple_mode (PyStr [CHR '' '', CHR 0x0A, CHR 0x09]) 1 = [] \<and>
   simple_abstractive_summarize simple_mode (PyStr [CHR '' '', CHR 0x0A, CHR 0x09]) 1 = [] \<and>
   extractive_summarize toy_nltk (PyStr []) 5 = [] \<and>
   simple_abstractive_summarize toy_nltk (PyStr []) 200 = []"
proof -
  have sp: "list_all is_space [CHR '' '', CHR 0x0A, CHR 0x09]"
    by (simp add: is_space_def)
  have toy: "\<And>ss. NLTK_AVAILABLE toy_nltk \<Longrightarrow> sent_tokenize toy_nltk [] = Some ss \<Longrightarrow> ss = []"
    by (auto simp: toy_nltk_def simple_sent_tokenize_empty)
  show ?thesis
    using sp
      empty_input_gives_empty_summary [of "[CHR '' '', CHR 0x0A, CHR 0x09]" 1 1 simple_mode]
      empty_input_gives_empty_summary [of "[]" 5 200 toy_nltk] toy
    by (simp add: simple_mode_def)
qed

end
